(* ===== verification/Prelude.thy ===== *)
theory Prelude
  imports Main "HOL-Library.AList"
begin

text \<open>
  Shared vocabulary of the development: the Python values that travel over the
  DevTools socket (JSON objects), Python's truthiness and \<open>str()\<close> rendering of
  them, the exceptions raised in \<open>src/zendriver/core/connection.py\<close>, insertion
  ordered dictionaries as association lists (\<open>HOL-Library.AList\<close>, whose
  \<open>AList.update\<close> keeps the position of an existing key and appends a new one,
  as a Python \<open>dict\<close> does), and \<open>collections.deque\<close> with a \<open>maxlen\<close>.
  The lemmas here are the generic facts the component theories share; they are
  collected in the \<open>pydict_simps\<close> bundle.
\<close>

named_theorems pydict_simps "facts on dictionaries as association lists"

section \<open>JSON values\<close>

text \<open>
  A frame read from the socket is the result of \<open>json.loads\<close>. Numbers are
  modelled as Python \<open>int\<close>s (the protocol fields the connection inspects, ids and
  error codes, are integers). An object is a list of key/value pairs with
  distinct keys, in the order of the text.
\<close>

datatype json =
    JNull
  | JBool bool
  | JInt int
  | JStr string
  | JList "json list"
  | JObj "(string \<times> json) list"

type_synonym jobj = "(string \<times> json) list"

text \<open>Python's \<open>k in d\<close> on a dictionary.\<close>

definition jhas :: "jobj \<Rightarrow> string \<Rightarrow> bool" where
  "jhas d k \<longleftrightarrow> map_of d k \<noteq> None"

text \<open>Python's \<open>bool(x)\<close>: \<open>None\<close>, \<open>False\<close>, \<open>0\<close> and empty containers are false.\<close>

fun py_truthy :: "json \<Rightarrow> bool" where
  "py_truthy JNull = False"
| "py_truthy (JBool b) = b"
| "py_truthy (JInt i) = (i \<noteq> 0)"
| "py_truthy (JStr s) = (s \<noteq> [])"
| "py_truthy (JList xs) = (xs \<noteq> [])"
| "py_truthy (JObj d) = (d \<noteq> [])"

subsection \<open>\<open>str()\<close> and \<open>repr()\<close> of JSON values\<close>

text \<open>
  Decimal digits of a natural number, most significant first, as \<open>str(n)\<close>.
\<close>

fun nat_digits :: "nat \<Rightarrow> string" where
  "nat_digits n =
     (if n < 10 then [char_of (48 + n)]
      else nat_digits (n div 10) @ [char_of (48 + n mod 10)])"

declare nat_digits.simps [simp del]

definition int_str :: "int \<Rightarrow> string" where
  "int_str i = (if i < 0 then CHR ''-'' # nat_digits (nat (- i)) else nat_digits (nat i))"

text \<open>
  \<open>repr()\<close> of a string: single quotes unless the text holds a single and no
  double quote; backslash, the chosen quote, newline, carriage return and tab are
  escaped. (Strings are byte strings here; the rendering is exact on ASCII.)
\<close>

definition repr_quote :: "string \<Rightarrow> char" where
  "repr_quote s = (if CHR 0x27 \<in> set s \<and> CHR 0x22 \<notin> set s then CHR 0x22 else CHR 0x27)"

fun repr_char :: "char \<Rightarrow> char \<Rightarrow> string" where
  "repr_char q c =
     (if c = CHR 0x5C then [CHR 0x5C, CHR 0x5C]
      else if c = q then [CHR 0x5C, c]
      else if c = CHR 0x0A then [CHR 0x5C, CHR ''n'']
      else if c = CHR 0x0D then [CHR 0x5C, CHR ''r'']
      else if c = CHR 0x09 then [CHR 0x5C, CHR ''t'']
      else [c])"

definition str_repr :: "string \<Rightarrow> string" where
  "str_repr s = (let q = repr_quote s in q # concat (map (repr_char q) s) @ [q])"

fun sep_join :: "string \<Rightarrow> string list \<Rightarrow> string" where
  "sep_join sep [] = []"
| "sep_join sep [x] = x"
| "sep_join sep (x # xs) = x @ sep @ sep_join sep xs"

text \<open>\<open>repr()\<close> of the Python object \<open>json.loads\<close> builds.\<close>

fun py_repr :: "json \<Rightarrow> string" where
  "py_repr JNull = ''None''"
| "py_repr (JBool b) = (if b then ''True'' else ''False'')"
| "py_repr (JInt i) = int_str i"
| "py_repr (JStr s) = str_repr s"
| "py_repr (JList xs) = ''['' @ sep_join '', '' (map py_repr xs) @ '']''"
| "py_repr (JObj kvs) =
     ''{'' @ sep_join '', '' (map (\<lambda>(k, v). str_repr k @ '': '' @ py_repr v) kvs) @ ''}''"

text \<open>\<open>str()\<close> differs from \<open>repr()\<close> on strings only, at the top level.\<close>

fun py_str :: "json \<Rightarrow> string" where
  "py_str (JStr s) = s"
| "py_str j = py_repr j"

section \<open>Exceptions\<close>

text \<open>
  The exceptions the connection code raises or catches. A
  \<open>ProtocolException\<close> carries its \<open>message\<close> and \<open>code\<close> attributes
  (lines 46--74 of \<open>connection.py\<close>).
\<close>

datatype py_exc =
    ProtocolException "json option" "json option"
  | InvalidStateError
  | KeyError
  | AttributeError
  | TypeError
  | ValueError
  | JSONDecodeError
  | DecoderError
  | ConnectionClosedOK
  | ConnectError

section \<open>Dictionaries as association lists\<close>

type_synonym ('k, 'v) pydict = "('k \<times> 'v) list"

text \<open>\<open>d.pop(k)\<close> for a key that is present, and \<open>del d[k]\<close>.\<close>

definition dict_pop :: "('k, 'v) pydict \<Rightarrow> 'k \<Rightarrow> ('v \<times> ('k, 'v) pydict) option" where
  "dict_pop d k = (case map_of d k of None \<Rightarrow> None | Some v \<Rightarrow> Some (v, AList.delete k d))"

definition dict_keys :: "('k, 'v) pydict \<Rightarrow> 'k set" where
  "dict_keys d = fst ` set d"

definition dict_wf :: "('k, 'v) pydict \<Rightarrow> bool" where
  "dict_wf d \<longleftrightarrow> distinct (map fst d)"

section \<open>\<open>collections.deque(maxlen=n)\<close>\<close>

text \<open>Appending to a full bounded deque drops its leftmost element.\<close>

definition dq_append :: "nat \<Rightarrow> 'a list \<Rightarrow> 'a \<Rightarrow> 'a list" where
  "dq_append maxlen xs x = (if length xs < maxlen then xs @ [x] else drop 1 (xs @ [x]))"

section \<open>Shared lemmas\<close>

lemma dict_keys_Nil [simp, pydict_simps]: "dict_keys [] = {}"
  by (simp add: dict_keys_def)

lemma dict_keys_update [simp, pydict_simps]:
  "dict_keys (AList.update k v d) = insert k (dict_keys d)"
  by (simp add: dict_keys_def dom_update)

lemma dict_keys_delete [simp, pydict_simps]:
  "dict_keys (AList.delete k d) = dict_keys d - {k}"
  by (auto simp: dict_keys_def AList.delete_eq)

lemma dict_keys_map_of [pydict_simps]: "k \<in> dict_keys d \<longleftrightarrow> map_of d k \<noteq> None"
  by (simp add: dict_keys_def dom_map_of_conv_image_fst [symmetric] domIff)

lemma dict_wf_update [simp, pydict_simps]: "dict_wf d \<Longrightarrow> dict_wf (AList.update k v d)"
  by (simp add: dict_wf_def distinct_update)

lemma dict_wf_delete [simp, pydict_simps]: "dict_wf d \<Longrightarrow> dict_wf (AList.delete k d)"
  by (simp add: dict_wf_def distinct_delete)

lemma dict_wf_Nil [simp, pydict_simps]: "dict_wf []"
  by (simp add: dict_wf_def)

lemma dict_pop_Some [pydict_simps]:
  "dict_pop d k = Some (v, d') \<longleftrightarrow> map_of d k = Some v \<and> d' = AList.delete k d"
  by (auto simp: dict_pop_def split: option.splits)

lemma dict_pop_None [pydict_simps]: "dict_pop d k = None \<longleftrightarrow> map_of d k = None"
  by (simp add: dict_pop_def split: option.splits)

lemma map_of_delete_same [simp, pydict_simps]: "map_of (AList.delete k d) k = None"
  by (simp add: delete_conv)

lemma ran_map_of_delete_subset [pydict_simps]:
  "v \<in> snd ` set (AList.delete k d) \<Longrightarrow> v \<in> snd ` set d"
  by (auto simp: AList.delete_eq)

lemma snd_set_update_subset [pydict_simps]:
  "v' \<in> snd ` set (AList.update k v d) \<Longrightarrow> v' = v \<or> v' \<in> snd ` set d"
  by (induction d) (auto split: if_splits)

lemma update_fresh [pydict_simps]: "map_of d k = None \<Longrightarrow> AList.update k v d = d @ [(k, v)]"
  by (induction d) (auto split: if_splits)

lemma set_delete_subset [pydict_simps]: "set (AList.delete k d) \<subseteq> set d"
  by (auto simp: AList.delete_eq)

lemma distinct_snd_delete [pydict_simps]:
  "distinct (map snd d) \<Longrightarrow> distinct (map snd (AList.delete k d))"
  by (simp add: AList.delete_eq distinct_map_filter)

lemma snd_set_update_subset_pair [pydict_simps]:
  "(k', v') \<in> set (AList.update k v d) \<Longrightarrow> (k', v') \<notin> set d \<Longrightarrow> k' = k \<and> v' = v"
  by (induction d) (auto split: if_splits)

lemma distinct_snd_update [pydict_simps]:
  "distinct (map snd d) \<Longrightarrow> v \<notin> snd ` set d \<Longrightarrow> distinct (map snd (AList.update k v d))"
proof (induction d)
  case Nil
  then show ?case by simp
next
  case (Cons p d)
  show ?case
  proof (cases "fst p = k")
    case True
    with Cons.prems show ?thesis by auto
  next
    case False
    have "snd p \<notin> snd ` set (AList.update k v d)"
    proof
      assume "snd p \<in> snd ` set (AList.update k v d)"
      then obtain a where a: "(a, snd p) \<in> set (AList.update k v d)" by force
      show False
      proof (cases "(a, snd p) \<in> set d")
        case True
        then have "snd p \<in> set (map snd d)" by (metis list.set_map image_eqI snd_conv)
        with Cons.prems(1) show False by simp
      next
        case False
        with a have "snd p = v" by (blast dest: snd_set_update_subset_pair)
        with Cons.prems(2) show False by force
      qed
    qed
    with False Cons show ?thesis by auto
  qed
qed

lemma length_dq_append [simp]:
  "length (dq_append m xs x) = (if length xs < m then Suc (length xs) else length xs)"
  by (cases xs) (simp_all add: dq_append_def)

lemma dq_append_below [simp]: "length xs < m \<Longrightarrow> dq_append m xs x = xs @ [x]"
  by (simp add: dq_append_def)

lemma set_dq_append: "set (dq_append m xs x) \<subseteq> insert x (set xs)"
  by (auto simp: dq_append_def dest: in_set_dropD)

text \<open>A separator that occurs in neither part splits a list in one way only.\<close>

lemma append_sep_first:
  "x \<notin> set a1 \<Longrightarrow> x \<notin> set a2 \<Longrightarrow> a1 @ x # b1 = a2 @ x # b2 \<Longrightarrow> a1 = a2 \<and> b1 = b2"
proof (induction a1 arbitrary: a2)
  case Nil then show ?case by (cases a2) auto
next
  case (Cons y a1) then show ?case by (cases a2) auto
qed

lemma append_sep_last:
  assumes "x \<notin> set b1" "x \<notin> set b2" "a1 @ x # b1 = a2 @ x # b2" shows "a1 = a2 \<and> b1 = b2"
proof -
  have "rev b1 @ x # rev a1 = rev b2 @ x # rev a2" using arg_cong[OF assms(3), of rev] by simp
  then show ?thesis using append_sep_first[of x "rev b1" "rev b2" "rev a1" "rev a2"] assms(1,2) by simp
qed

text \<open>Character literals against computed characters, in both orientations.\<close>

lemma char_of_eq_iff_sym: "c = char_of n \<longleftrightarrow> take_bit 8 n = of_char c"
  by (metis char_of_eq_iff)

end
