(* ===== verification/Transaction.thy ===== *)
theory Transaction
  imports Prelude
begin

text \<open>
  Command descriptors, events and the \<open>Transaction\<close> future of
  \<open>src/zendriver/core/connection.py\<close> (classes \<open>ProtocolException\<close>,
  \<open>Transaction\<close>, \<open>EventTransaction\<close>, lines 46--166).

  A descriptor is the generator a \<open>cdp.<domain>.<method>(...)\<close> call returns: its
  first \<open>next()\<close> yields the request dictionary, and \<open>send(result)\<close> either
  finishes with \<open>StopIteration(value)\<close> (the decoded value), yields again, or raises.
  The model keeps the first yield as \<open>cmd_request\<close> and the reaction to
  \<open>send\<close> as the function \<open>cmd_decode\<close>.

  A transaction is an \<open>asyncio.Future\<close>: its state is \<open>Pending\<close>, \<open>Done\<close> with a
  result, or \<open>Failed\<close> with an exception; setting the state of a future that is not
  pending raises \<open>InvalidStateError\<close>, as asyncio does.
\<close>

section \<open>Descriptors, events, futures\<close>

datatype decode_step = Returns json | YieldsAgain | Raises py_exc

record cdp_command =
  cmd_request :: jobj
  cmd_decode :: "json \<Rightarrow> decode_step"

text \<open>
  Objects of a protocol domain module (\<open>cdp.network\<close>, ...). What
  \<open>add_handler\<close> and \<open>_register_handlers\<close> ask of an object is whether its type is
  exactly \<open>type\<close> (a plain class, as the generated event dataclasses are), whether
  it is a class with another metaclass (an \<open>enum.Enum\<close>), or a builtin.
\<close>

datatype member_kind = PlainClass | MetaClass | BuiltinObj | OtherObj

datatype pyobj = PyObj (obj_module: string) (obj_name: string) (obj_kind: member_kind)

text \<open>An event object: its class and its parsed payload.\<close>

record event =
  ev_type :: pyobj
  ev_payload :: json

datatype result = Decoded json | EventObj event

datatype fut = Pending | Done result | Failed py_exc

text \<open>
  A command transaction holds its generator; an \<open>EventTransaction\<close> holds
  \<open>None\<close> there (its constructor's call of \<open>next(None)\<close> raises and is swallowed,
  so it has no \<open>method\<close> or \<open>params\<close>: the model puts \<open>JNull\<close> in both).
\<close>

datatype tx_kind = CommandTx "json \<Rightarrow> decode_step" | EventTx

record tx =
  tx_method :: json
  tx_params :: json
  tx_id :: "int option"
  tx_kind :: tx_kind
  tx_state :: fut

section \<open>Operations\<close>

text \<open>\<open>dict.get(k)\<close>: a JSON \<open>null\<close> and a missing key both read as \<open>None\<close>.\<close>

definition py_get :: "jobj \<Rightarrow> string \<Rightarrow> json option" where
  "py_get d k = (case map_of d k of Some JNull \<Rightarrow> None | v \<Rightarrow> v)"

text \<open>\<open>ProtocolException(x).__init__\<close> for a value \<open>x\<close> decoded from JSON:
  a dictionary gives \<open>message\<close> and \<open>code\<close>, anything else its \<open>str()\<close> as message.\<close>

fun protocol_exception :: "json \<Rightarrow> py_exc" where
  "protocol_exception (JObj d) = ProtocolException (py_get d ''message'') (py_get d ''code'')"
| "protocol_exception x = ProtocolException (Some (JStr (py_str x))) None"

text \<open>\<open>Transaction.__init__\<close>: \<open>self.method, *params = next(gen).values()\<close>.\<close>

definition new_transaction :: "cdp_command \<Rightarrow> py_exc + tx" where
  "new_transaction c =
     (case map snd (cmd_request c) of
        [] \<Rightarrow> Inl ValueError
      | m # ps \<Rightarrow> Inr \<lparr>tx_method = m, tx_params = (if ps = [] then JList [] else last ps),
                      tx_id = None, tx_kind = CommandTx (cmd_decode c), tx_state = Pending\<rparr>)"

text \<open>\<open>EventTransaction.__init__\<close>: a future already resolved with the event.\<close>

definition event_transaction :: "event \<Rightarrow> tx" where
  "event_transaction e =
     \<lparr>tx_method = JNull, tx_params = JNull, tx_id = None, tx_kind = EventTx,
      tx_state = Done (EventObj e)\<rparr>"

text \<open>\<open>Transaction.message\<close>: the frame \<open>json.dumps\<close> writes.\<close>

definition tx_message :: "tx \<Rightarrow> jobj" where
  "tx_message t =
     [(''method'', tx_method t), (''params'', tx_params t),
      (''id'', case tx_id t of None \<Rightarrow> JNull | Some i \<Rightarrow> JInt i)]"

text \<open>\<open>Future.set_result\<close> and \<open>Future.set_exception\<close>.\<close>

definition fut_set_result :: "tx \<Rightarrow> result \<Rightarrow> py_exc + tx" where
  "fut_set_result t r =
     (if tx_state t = Pending then Inr (t\<lparr>tx_state := Done r\<rparr>) else Inl InvalidStateError)"

definition fut_set_exception :: "tx \<Rightarrow> py_exc \<Rightarrow> py_exc + tx" where
  "fut_set_exception t e =
     (if tx_state t = Pending then Inr (t\<lparr>tx_state := Failed e\<rparr>) else Inl InvalidStateError)"

text \<open>
  The text of the exception \<open>__call__\<close> raises when the generator does not finish:
  \<open>"could not parse the cdp response:\n%s" % response\<close>.
\<close>

definition parse_failure :: "jobj \<Rightarrow> py_exc" where
  "parse_failure resp =
     ProtocolException
       (Some (JStr (''could not parse the cdp response:'' @ [CHR 0x0A] @ py_repr (JObj resp)))) None"

text \<open>
  \<open>Transaction.__call__(**response)\<close>: an \<open>"error"\<close> entry fails the future with a
  \<open>ProtocolException\<close>; otherwise the generator is sent \<open>response["result"]\<close>
  (the attribute \<open>send\<close> is looked up first, so an \<open>EventTransaction\<close>, whose
  generator is \<open>None\<close>, raises \<open>AttributeError\<close> before the key is read). An
  \<open>Inl\<close> result is an exception raised out of \<open>__call__\<close>.
\<close>

definition tx_call :: "tx \<Rightarrow> jobj \<Rightarrow> py_exc + tx" where
  "tx_call t resp =
     (case map_of resp ''error'' of
        Some err \<Rightarrow> fut_set_exception t (protocol_exception err)
      | None \<Rightarrow>
          (case tx_kind t of
             EventTx \<Rightarrow> Inl AttributeError
           | CommandTx dec \<Rightarrow>
               (case map_of resp ''result'' of
                  None \<Rightarrow> Inl KeyError
                | Some r \<Rightarrow>
                    (case dec r of
                       Returns v \<Rightarrow> fut_set_result t (Decoded v)
                     | YieldsAgain \<Rightarrow> Inl (parse_failure resp)
                     | Raises e \<Rightarrow> Inl e))))"

section \<open>Lemmas\<close>

lemmas tx_defs = tx_call_def fut_set_result_def fut_set_exception_def

lemma tx_call_cases:
  "tx_call t resp = Inr t' \<Longrightarrow>
     tx_state t = Pending \<and> t' = t\<lparr>tx_state := tx_state t'\<rparr> \<and> tx_state t' \<noteq> Pending"
  by (auto simp: tx_defs split: option.splits tx_kind.splits decode_step.splits if_splits)

lemma tx_call_not_pending:
  "tx_state t \<noteq> Pending \<Longrightarrow> \<exists>e. tx_call t resp = Inl e"
  by (auto simp: tx_defs split: option.splits tx_kind.splits decode_step.splits)

lemma tx_call_keeps_id: "tx_call t resp = Inr t' \<Longrightarrow> tx_id t' = tx_id t"
  by (drule tx_call_cases) (metis tx.select_convs(3) tx.surjective tx.update_convs(5))

lemma tx_call_keeps_kind: "tx_call t resp = Inr t' \<Longrightarrow> tx_kind t' = tx_kind t"
  by (drule tx_call_cases) (metis tx.select_convs(4) tx.surjective tx.update_convs(5))

lemma tx_call_error:
  "map_of resp ''error'' = Some err \<Longrightarrow> tx_state t = Pending \<Longrightarrow>
     tx_call t resp = Inr (t\<lparr>tx_state := Failed (protocol_exception err)\<rparr>)"
  by (simp add: tx_defs)

lemma tx_call_result:
  "map_of resp ''error'' = None \<Longrightarrow> map_of resp ''result'' = Some r \<Longrightarrow>
     tx_kind t = CommandTx dec \<Longrightarrow> dec r = Returns v \<Longrightarrow> tx_state t = Pending \<Longrightarrow>
     tx_call t resp = Inr (t\<lparr>tx_state := Done (Decoded v)\<rparr>)"
  by (simp add: tx_defs)

lemma new_transaction_pending:
  "new_transaction c = Inr t \<Longrightarrow>
     tx_state t = Pending \<and> tx_id t = None \<and> tx_kind t = CommandTx (cmd_decode c)"
  by (auto simp: new_transaction_def split: list.splits)

lemma event_transaction_simps [simp]:
  "tx_state (event_transaction e) = Done (EventObj e)"
  "tx_kind (event_transaction e) = EventTx"
  "tx_id (event_transaction e) = None"
  by (simp_all add: event_transaction_def)

end
