(* ===== verification/State.thy ===== *)
theory State
  imports Transaction
begin

text \<open>
  The state of a \<open>Connection\<close> and of its \<open>Listener\<close>
  (\<open>Connection.__init__\<close>, lines 194--215, and \<open>Listener.__init__\<close>, lines
  697--721 of \<open>src/zendriver/core/connection.py\<close>), with the invariant the
  component theories prove their operations keep.

  Python objects that several places refer to are kept in an explicit store:
  \<open>c_heap\<close> holds every transaction object created so far, and the pending table
  \<open>mapper\<close> maps a correlation id to the index (object identity) of its
  transaction in that store. A caller awaiting \<open>send()\<close> holds the index, so a
  transaction popped from the table stays observable.
\<close>

section \<open>Handlers and listener\<close>

text \<open>A callback: its name and whether \<open>iscoroutinefunction\<close> holds of it.\<close>

datatype handler = Handler (h_name: string) (h_coroutine: bool)

text \<open>
  \<open>Listener\<close>: whether its task is running (\<open>Listener.running\<close>), the idle
  event, the bounded deque of event-transaction ids and its two class constants
  (read through \<open>self\<close>, so an instance may override them).
\<close>

record listener =
  l_running :: bool
  l_idle :: bool
  l_event_ids :: "int list"
  l_max_events :: nat
  l_cleanup_threshold :: nat

definition MAX_EVENT_TRANSACTIONS :: nat where "MAX_EVENT_TRANSACTIONS = 10000"

definition CLEANUP_THRESHOLD :: nat where "CLEANUP_THRESHOLD = 8000"

text \<open>\<open>Listener(connection)\<close>: \<open>__init__\<close> ends with \<open>self.run()\<close>, which creates
  the reading task, so a new listener is running.\<close>

definition new_listener :: listener where
  "new_listener =
     \<lparr>l_running = True, l_idle = False, l_event_ids = [],
      l_max_events = MAX_EVENT_TRANSACTIONS, l_cleanup_threshold = CLEANUP_THRESHOLD\<rparr>"

section \<open>Connection\<close>

text \<open>
  \<open>c_websocket\<close> is \<open>self.websocket is not None\<close>; \<open>c_count\<close> the next value of
  \<open>self.__count__\<close>; \<open>c_sent\<close> the frames written to the socket, oldest first;
  \<open>c_tasks\<close> the handler invocations scheduled by the listener (each
  \<open>asyncio.create_task\<close>), oldest first.
\<close>

record conn =
  c_websocket :: bool
  c_count :: int
  c_mapper :: "(int, nat) pydict"
  c_heap :: "tx list"
  c_handlers :: "(pyobj, handler list) pydict"
  c_enabled_domains :: "string list"
  c_listener :: "listener option"
  c_sent :: "jobj list"
  c_tasks :: "(handler \<times> event) list"

definition new_connection :: conn where
  "new_connection =
     \<lparr>c_websocket = False, c_count = 0, c_mapper = [], c_heap = [], c_handlers = [],
      c_enabled_domains = [], c_listener = None, c_sent = [], c_tasks = []\<rparr>"

text \<open>\<open>Connection.closed\<close>.\<close>

definition closed :: "conn \<Rightarrow> bool" where
  "closed c \<longleftrightarrow> \<not> c_websocket c"

section \<open>The invariant of the pending table\<close>

text \<open>
  The pending table is a dictionary whose keys are all below the counter (so the
  next id is fresh), whose entries point into the store at distinct objects, and
  each entry's transaction carries its own key as id.
\<close>

definition mapper_inv :: "conn \<Rightarrow> bool" where
  "mapper_inv c \<longleftrightarrow>
     dict_wf (c_mapper c) \<and> 0 \<le> c_count c \<and>
     (\<forall>k oid. (k, oid) \<in> set (c_mapper c) \<longrightarrow>
        k < c_count c \<and> oid < length (c_heap c) \<and> tx_id (c_heap c ! oid) = Some k) \<and>
     distinct (map snd (c_mapper c))"

lemma mapper_inv_new_connection: "mapper_inv new_connection"
  by (simp add: mapper_inv_def new_connection_def)

lemma mapper_inv_fresh:
  "mapper_inv c \<Longrightarrow> map_of (c_mapper c) (c_count c) = None"
proof (rule ccontr)
  assume inv: "mapper_inv c" and "map_of (c_mapper c) (c_count c) \<noteq> None"
  then obtain oid where "(c_count c, oid) \<in> set (c_mapper c)"
    by (auto dest: map_of_SomeD)
  with inv show False by (auto simp: mapper_inv_def)
qed

text \<open>The two ways the table changes: a fresh entry, and a removal.\<close>

lemma mapper_inv_reset:
  "mapper_inv c \<Longrightarrow> mapper_inv (if c_mapper c = [] then c\<lparr>c_count := 0\<rparr> else c)"
  by (auto simp: mapper_inv_def)

lemma mapper_inv_insert:
  assumes inv: "mapper_inv c"
  shows "mapper_inv (c\<lparr>c_count := c_count c + 1,
                        c_heap := c_heap c @ [t\<lparr>tx_id := Some (c_count c)\<rparr>],
                        c_mapper := AList.update (c_count c) (length (c_heap c)) (c_mapper c)\<rparr>)"
proof -
  let ?m = "c_mapper c" and ?h = "c_heap c" and ?k = "c_count c"
  have upd: "AList.update ?k (length ?h) ?m = ?m @ [(?k, length ?h)]"
    using inv by (simp add: mapper_inv_fresh update_fresh)
  have wf: "dict_wf (AList.update ?k (length ?h) ?m)"
    using inv by (simp add: mapper_inv_def)
  have old: "k < ?k \<and> oid < length ?h \<and>
      tx_id ((?h @ [t\<lparr>tx_id := Some ?k\<rparr>]) ! oid) = Some k" if "(k, oid) \<in> set ?m" for k oid
  proof -
    from inv that have "k < ?k" "oid < length ?h" "tx_id (?h ! oid) = Some k"
      by (auto simp: mapper_inv_def)
    then show ?thesis by (simp add: nth_append)
  qed
  have "length ?h \<notin> set (map snd ?m)"
    using inv by (force simp: mapper_inv_def)
  then have "distinct (map snd (?m @ [(?k, length ?h)]))"
    using inv by (simp add: mapper_inv_def)
  with wf upd inv show ?thesis
    unfolding mapper_inv_def by (auto dest: old)
qed

lemma mapper_inv_delete:
  "mapper_inv c \<Longrightarrow> mapper_inv (c\<lparr>c_mapper := AList.delete k (c_mapper c)\<rparr>)"
  unfolding mapper_inv_def
  by (auto simp: distinct_snd_delete dest: set_delete_subset [THEN subsetD])

lemma mapper_inv_filter:
  "mapper_inv c \<Longrightarrow> mapper_inv (c\<lparr>c_mapper := filter P (c_mapper c)\<rparr>)"
  unfolding mapper_inv_def dict_wf_def
  by (auto simp: distinct_map_filter)

lemma mapper_inv_heap_update:
  assumes inv: "mapper_inv c" and same: "tx_id t = tx_id (c_heap c ! oid)"
  shows "mapper_inv (c\<lparr>c_heap := (c_heap c)[oid := t]\<rparr>)"
proof -
  have "tx_id ((c_heap c)[oid := t] ! b) = tx_id (c_heap c ! b)" for b
    using same by (cases "b = oid"; cases "oid < length (c_heap c)") (simp_all add: list_update_beyond)
  with inv show ?thesis unfolding mapper_inv_def by auto
qed

end
