(* ===== verification/Listener.thy ===== *)
theory Listener
  imports State
begin

text \<open>
  The reader loop, \<open>Listener.listener_loop\<close> and
  \<open>Listener._cleanup_old_event_transactions\<close> (lines 746--896 of
  \<open>src/zendriver/core/connection.py\<close>).

  One iteration of the \<open>while True\<close> loop is \<open>listener_iter\<close>: it consumes the
  outcome of one \<open>asyncio.wait_for(websocket.recv(), idle_time)\<close> (a
  \<open>recv\<close> value: a timeout, a cancellation, a closed socket, a frame that is not
  JSON, or a decoded JSON object) and returns the new listener and connection
  state and whether the loop goes on, breaks or dies with an exception. The loop
  over a sequence of such outcomes is \<open>listener_loop\<close>, structural on the
  sequence. The event schema registry (\<open>cdp.util.parse_json_event\<close>, outside this
  repository) is the parameter \<open>parse\<close>: \<open>None\<close> where it raises.
\<close>

datatype recv =
    RTimeout
  | RCancelled
  | RClosedError
  | RClosedOK
  | RBadJson
  | RFrame jobj

datatype loop_ctl = LContinue | LBreak | LRaise py_exc

section \<open>Eviction of old event transactions\<close>

text \<open>
  The \<open>for _ in range(num_to_remove)\<close> loop: pop the oldest id and delete it from
  the table if it is still there; stop early on an empty deque.
\<close>

fun evict_loop :: "nat \<Rightarrow> int list \<Rightarrow> (int, nat) pydict \<Rightarrow> int list \<times> (int, nat) pydict" where
  "evict_loop 0 ids m = (ids, m)"
| "evict_loop (Suc n) [] m = ([], m)"
| "evict_loop (Suc n) (i # ids) m =
     evict_loop n ids (if map_of m i \<noteq> None then AList.delete i m else m)"

definition cleanup_old_event_transactions ::
  "listener \<Rightarrow> (int, nat) pydict \<Rightarrow> listener \<times> (int, nat) pydict" where
  "cleanup_old_event_transactions l m =
     (let ids = l_event_ids l in
      if int (length ids) < int (l_cleanup_threshold l) then (l, m)
      else
        let num_to_remove = int (length ids) - int (l_cleanup_threshold l) div 2 in
        if num_to_remove \<le> 0 then (l, m)
        else
          let (ids', m') = evict_loop (nat num_to_remove) ids m
          in (l\<lparr>l_event_ids := ids'\<rparr>, m'))"

section \<open>Responses\<close>

text \<open>
  \<open>message["id"] in self.connection.mapper\<close>: the id is looked up as a dictionary
  key; \<open>True\<close>/\<open>False\<close> hash as \<open>1\<close>/\<open>0\<close>, a list or an object is unhashable and
  raises \<open>TypeError\<close>, any other value is simply absent.
\<close>

fun id_lookup :: "(int, nat) pydict \<Rightarrow> json \<Rightarrow> py_exc + (int \<times> nat) option" where
  "id_lookup m (JInt i) = Inr (map_option (Pair i) (map_of m i))"
| "id_lookup m (JBool b) =
     (let i = (if b then 1 else 0) in Inr (map_option (Pair i) (map_of m i)))"
| "id_lookup m (JList xs) = Inl TypeError"
| "id_lookup m (JObj d) = Inl TypeError"
| "id_lookup m j = Inr None"

text \<open>
  The \<open>if "id" in message\<close> branch: pop the transaction and call it with the
  frame; an exception raised by the call leaves the loop. The branch for id
  \<open>-2\<close> (\<open>_send_oneshot\<close>) is written as the code has it, behind the failed
  lookup.
\<close>

definition handle_response :: "conn \<Rightarrow> jobj \<Rightarrow> json \<Rightarrow> conn \<times> loop_ctl" where
  "handle_response c msg idv =
     (case id_lookup (c_mapper c) idv of
        Inl e \<Rightarrow> (c, LRaise e)
      | Inr (Some (k, oid)) \<Rightarrow>
          (let c1 = c\<lparr>c_mapper := AList.delete k (c_mapper c)\<rparr> in
           case tx_call (c_heap c ! oid) msg of
             Inl e \<Rightarrow> (c1, LRaise e)
           | Inr t' \<Rightarrow> (c1\<lparr>c_heap := (c_heap c)[oid := t']\<rparr>, LContinue))
      | Inr None \<Rightarrow>
          (if idv = JInt (-2) then
             (case map_of (c_mapper c) (-2) of
                None \<Rightarrow> (c, LContinue)
              | Some oid \<Rightarrow>
                  (case tx_call (c_heap c ! oid) msg of
                     Inl e \<Rightarrow> (c, LRaise e)
                   | Inr t' \<Rightarrow> (c\<lparr>c_heap := (c_heap c)[oid := t']\<rparr>, LContinue)))
           else (c, LContinue)))"

section \<open>Events\<close>

text \<open>
  The event branch once the event is parsed: reset the counter if the table is
  empty, give the \<open>EventTransaction\<close> the next id, store it, remember its id in
  the bounded deque and run the cleanup, all before any handler is looked at.
\<close>

definition record_event :: "listener \<Rightarrow> conn \<Rightarrow> event \<Rightarrow> listener \<times> conn" where
  "record_event l c ev =
     (let c1 = (if c_mapper c = [] then c\<lparr>c_count := 0\<rparr> else c);
          eid = c_count c1;
          c2 = c1\<lparr>c_count := eid + 1,
                  c_heap := c_heap c1 @ [(event_transaction ev)\<lparr>tx_id := Some eid\<rparr>],
                  c_mapper := AList.update eid (length (c_heap c1)) (c_mapper c1)\<rparr>;
          l2 = l\<lparr>l_event_ids := dq_append (l_max_events l) (l_event_ids l) eid\<rparr>;
          (l3, m3) = cleanup_old_event_transactions l2 (c_mapper c2)
      in (l3, c2\<lparr>c_mapper := m3\<rparr>))"

text \<open>
  Handler dispatch: the callbacks registered for \<open>type(event)\<close>, each scheduled as
  its own task (a coroutine function through \<open>asyncio.create_task\<close>, a plain
  function through \<open>asyncio.to_thread\<close>); none of them runs inside the loop.
\<close>

definition dispatch_event :: "conn \<Rightarrow> event \<Rightarrow> conn" where
  "dispatch_event c ev =
     (case map_of (c_handlers c) (ev_type ev) of
        None \<Rightarrow> c
      | Some cbs \<Rightarrow>
          (if cbs = [] then c else c\<lparr>c_tasks := c_tasks c @ map (\<lambda>h. (h, ev)) cbs\<rparr>))"

section \<open>One iteration and the loop\<close>

definition listener_iter ::
  "(jobj \<Rightarrow> event option) \<Rightarrow> listener \<Rightarrow> conn \<Rightarrow> recv \<Rightarrow> listener \<times> conn \<times> loop_ctl" where
  "listener_iter parse l c r =
     (if \<not> c_websocket c then (l, c, LRaise ValueError)
      else case r of
        RTimeout \<Rightarrow> (l\<lparr>l_idle := True\<rparr>, c, LContinue)
      | RCancelled \<Rightarrow> (l, c, LBreak)
      | RClosedError \<Rightarrow> (l, c, LBreak)
      | RClosedOK \<Rightarrow> (l, c, LRaise ConnectionClosedOK)
      | RBadJson \<Rightarrow> (l\<lparr>l_idle := False\<rparr>, c, LRaise JSONDecodeError)
      | RFrame msg \<Rightarrow>
          (let l1 = l\<lparr>l_idle := False\<rparr> in
           case map_of msg ''id'' of
             Some idv \<Rightarrow> (let (c', ctl) = handle_response c msg idv in (l1, c', ctl))
           | None \<Rightarrow>
               (case parse msg of
                  None \<Rightarrow> (l1, c, LContinue)
                | Some ev \<Rightarrow>
                    (let (l2, c2) = record_event l1 c ev in (l2, dispatch_event c2 ev, LContinue)))))"

text \<open>A loop that breaks or raises leaves its task done: \<open>running\<close> becomes false.\<close>

fun listener_loop ::
  "(jobj \<Rightarrow> event option) \<Rightarrow> listener \<Rightarrow> conn \<Rightarrow> recv list \<Rightarrow> listener \<times> conn \<times> loop_ctl" where
  "listener_loop parse l c [] = (l, c, LContinue)"
| "listener_loop parse l c (r # rs) =
     (case listener_iter parse l c r of
        (l', c', LContinue) \<Rightarrow> listener_loop parse l' c' rs
      | (l', c', ctl) \<Rightarrow> (l'\<lparr>l_running := False\<rparr>, c', ctl))"

text \<open>The connection's own listener consumes the outcomes, if it is running.\<close>

definition listener_feed :: "(jobj \<Rightarrow> event option) \<Rightarrow> conn \<Rightarrow> recv list \<Rightarrow> conn" where
  "listener_feed parse c rs =
     (case c_listener c of
        None \<Rightarrow> c
      | Some l \<Rightarrow>
          (if l_running l
           then (let (l', c', _) = listener_loop parse l c rs in c'\<lparr>c_listener := Some l'\<rparr>)
           else c))"

section \<open>The event bookkeeping invariant\<close>

text \<open>
  Every event record still in the table is remembered in the listener's deque,
  and the deque is below the cleanup threshold, which is positive and at most
  the deque's \<open>maxlen\<close>.
\<close>

definition events_tracked :: "listener \<Rightarrow> conn \<Rightarrow> bool" where
  "events_tracked l c \<longleftrightarrow>
     (\<forall>k oid. (k, oid) \<in> set (c_mapper c) \<longrightarrow> tx_kind (c_heap c ! oid) = EventTx \<longrightarrow>
        k \<in> set (l_event_ids l))"

definition listener_ok :: "listener \<Rightarrow> bool" where
  "listener_ok l \<longleftrightarrow>
     0 < l_cleanup_threshold l \<and> l_cleanup_threshold l \<le> l_max_events l \<and>
     length (l_event_ids l) < l_cleanup_threshold l"

text \<open>The event records held in the table.\<close>

definition event_entries :: "conn \<Rightarrow> (int \<times> nat) list" where
  "event_entries c = filter (\<lambda>(k, oid). tx_kind (c_heap c ! oid) = EventTx) (c_mapper c)"

section \<open>Sample states\<close>

text \<open>A connection with one command \<open>Foo.bar\<close> pending under id 0.\<close>

definition sample_tx :: tx where
  "sample_tx =
     \<lparr>tx_method = JStr ''Foo.bar'', tx_params = JObj [(''x'', JInt 1)], tx_id = Some 0,
      tx_kind = CommandTx Returns, tx_state = Pending\<rparr>"

definition sample_conn :: conn where
  "sample_conn =
     new_connection\<lparr>c_websocket := True, c_count := 1, c_mapper := [(0, 0)],
                     c_heap := [sample_tx], c_listener := Some new_listener\<rparr>"

definition sample_event :: event where
  "sample_event = \<lparr>ev_type = PyObj ''network'' ''RequestWillBeSent'' PlainClass, ev_payload = JNull\<rparr>"

definition sample_parse :: "jobj \<Rightarrow> event option" where
  "sample_parse m =
     (if map_of m ''method'' = Some (JStr ''Network.requestWillBeSent'') then Some sample_event else None)"

section \<open>Lemmas\<close>

subsection \<open>Eviction\<close>

text \<open>
  The eviction loop in closed form: the first \<open>n\<close> ids leave the deque, and their
  entries leave the table (deleting an absent key changes nothing).
\<close>

lemma evict_loop_eq:
  "evict_loop n ids m = (drop n ids, filter (\<lambda>(k, _). k \<notin> set (take n ids)) m)"
proof (induction n ids m rule: evict_loop.induct)
  case (1 ids m)
  then show ?case by (simp add: case_prod_unfold)
next
  case (2 n m)
  then show ?case by (simp add: case_prod_unfold)
next
  case (3 n i ids m)
  have del: "(if map_of m i \<noteq> None then AList.delete i m else m) = AList.delete i m"
    by (simp add: map_of_eq_None_iff)
  have "evict_loop (Suc n) (i # ids) m = evict_loop n ids (AList.delete i m)"
    by (simp only: evict_loop.simps del)
  from "3.IH" have IH: "evict_loop n ids (AList.delete i m) =
      (drop n ids, filter (\<lambda>(k, _). k \<notin> set (take n ids)) (AList.delete i m))"
    by (simp only: del)
  have "filter (\<lambda>(k, _). k \<notin> set (take n ids)) (AList.delete i m) =
      filter (\<lambda>(k, _). k \<notin> set (take (Suc n) (i # ids))) m"
    by (auto simp: AList.delete_eq filter_filter intro!: filter_cong)
  with IH \<open>evict_loop (Suc n) (i # ids) m = _\<close> show ?case by simp
qed

lemma cleanup_cases:
  "cleanup_old_event_transactions l m =
     (if length (l_event_ids l) < l_cleanup_threshold l then (l, m)
      else let n = length (l_event_ids l) - l_cleanup_threshold l div 2 in
        if n = 0 then (l, m)
        else (l\<lparr>l_event_ids := drop n (l_event_ids l)\<rparr>,
              filter (\<lambda>(k, _). k \<notin> set (take n (l_event_ids l))) m))"
proof -
  have half: "int T div 2 = int (T div 2)" for T :: nat
    by (simp add: zdiv_int)
  have empty: "ids = []" if "\<not> length ids < T" "length ids \<le> T div 2" for ids :: "int list" and T
  proof -
    from that have "length ids = 0" by presburger
    then show ?thesis by simp
  qed
  have nd: "nat (int a - int b) = a - b" for a b :: nat
    by simp
  show ?thesis
    by (auto simp: cleanup_old_event_transactions_def Let_def evict_loop_eq half nd dest: empty)
qed

lemma cleanup_filters:
  "cleanup_old_event_transactions l m = (l', m') \<Longrightarrow> \<exists>P. m' = filter P m"
  by (auto simp: cleanup_cases Let_def split: if_splits intro: filter_True [symmetric])

subsection \<open>The table invariant, branch by branch\<close>

lemma handle_response_minus_two:
  "id_lookup (c_mapper c) idv = Inr None \<Longrightarrow> idv = JInt (-2) \<Longrightarrow>
     map_of (c_mapper c) (-2) = None"
  by simp

lemma handle_response_mapper_inv:
  assumes inv: "mapper_inv c" and hr: "handle_response c msg idv = (c', ctl)"
  shows "mapper_inv c'"
proof (cases "id_lookup (c_mapper c) idv")
  case (Inl e)
  with hr inv show ?thesis by (simp add: handle_response_def)
next
  case (Inr found)
  show ?thesis
  proof (cases found)
    case None
    with Inr hr inv show ?thesis
      by (auto simp: handle_response_def split: if_splits option.splits)
  next
    case (Some p)
    obtain k oid where p: "p = (k, oid)" by fastforce
    let ?c1 = "c\<lparr>c_mapper := AList.delete k (c_mapper c)\<rparr>"
    have inv1: "mapper_inv ?c1" using inv by (rule mapper_inv_delete)
    show ?thesis
    proof (cases "tx_call (c_heap c ! oid) msg")
      case (Inl e)
      with Inr Some p hr inv1 show ?thesis by (simp add: handle_response_def)
    next
      case (Inr t')
      then have "tx_id t' = tx_id (c_heap ?c1 ! oid)" by (simp add: tx_call_keeps_id)
      with inv1 have "mapper_inv (?c1\<lparr>c_heap := (c_heap ?c1)[oid := t']\<rparr>)"
        by (rule mapper_inv_heap_update)
      with \<open>id_lookup (c_mapper c) idv = Inr found\<close> Some p Inr hr show ?thesis
        by (simp add: handle_response_def)
    qed
  qed
qed

lemma record_event_mapper_inv:
  assumes inv: "mapper_inv c" and re: "record_event l c ev = (l', c')"
  shows "mapper_inv c'"
proof -
  define c1 where "c1 = (if c_mapper c = [] then c\<lparr>c_count := 0\<rparr> else c)"
  define c2 where "c2 = c1\<lparr>c_count := c_count c1 + 1,
                  c_heap := c_heap c1 @ [(event_transaction ev)\<lparr>tx_id := Some (c_count c1)\<rparr>],
                  c_mapper := AList.update (c_count c1) (length (c_heap c1)) (c_mapper c1)\<rparr>"
  have "mapper_inv c1" unfolding c1_def using inv by (rule mapper_inv_reset)
  then have inv2: "mapper_inv c2" unfolding c2_def by (rule mapper_inv_insert)
  obtain l3 m3 where cl: "cleanup_old_event_transactions
      (l\<lparr>l_event_ids := dq_append (l_max_events l) (l_event_ids l) (c_count c1)\<rparr>) (c_mapper c2) = (l3, m3)"
    by fastforce
  then obtain P where "m3 = filter P (c_mapper c2)" by (blast dest: cleanup_filters)
  with inv2 have "mapper_inv (c2\<lparr>c_mapper := m3\<rparr>)" by (simp add: mapper_inv_filter)
  moreover have "c' = c2\<lparr>c_mapper := m3\<rparr>"
    using re cl by (simp add: record_event_def c1_def c2_def Let_def)
  ultimately show ?thesis by simp
qed

lemma dispatch_event_mapper_inv: "mapper_inv c \<Longrightarrow> mapper_inv (dispatch_event c ev)"
  by (auto simp: dispatch_event_def mapper_inv_def split: option.splits)

lemma listener_iter_mapper_inv:
  assumes inv: "mapper_inv c" and it: "listener_iter parse l c r = (l', c', ctl)"
  shows "mapper_inv c'"
proof (cases "c_websocket c")
  case False
  with inv it show ?thesis by (simp add: listener_iter_def)
next
  case True
  show ?thesis
  proof (cases r)
    case (RFrame msg)
    show ?thesis
    proof (cases "map_of msg ''id''")
      case (Some idv)
      then obtain ctl' where "handle_response c msg idv = (c', ctl')"
        using True RFrame it by (auto simp: listener_iter_def split: prod.splits)
      with inv show ?thesis by (rule handle_response_mapper_inv)
    next
      case None
      show ?thesis
      proof (cases "parse msg")
        case None': None
        with None True RFrame it inv show ?thesis by (simp add: listener_iter_def)
      next
        case (Some ev)
        obtain l2 c2 where re: "record_event (l\<lparr>l_idle := False\<rparr>) c ev = (l2, c2)"
          by fastforce
        with inv have "mapper_inv c2" by (rule record_event_mapper_inv)
        then have "mapper_inv (dispatch_event c2 ev)" by (rule dispatch_event_mapper_inv)
        with Some None True RFrame it re show ?thesis by (simp add: listener_iter_def)
      qed
    qed
  qed (use True inv it in \<open>simp_all add: listener_iter_def\<close>)
qed

lemma listener_loop_mapper_inv:
  "mapper_inv c \<Longrightarrow> listener_loop parse l c rs = (l', c', ctl) \<Longrightarrow> mapper_inv c'"
proof (induction rs arbitrary: l c)
  case Nil
  then show ?case by simp
next
  case (Cons r rs)
  obtain l1 c1 ctl1 where it: "listener_iter parse l c r = (l1, c1, ctl1)"
    by (cases "listener_iter parse l c r") auto
  with Cons.prems(1) have inv1: "mapper_inv c1" by (rule listener_iter_mapper_inv)
  show ?case
  proof (cases ctl1)
    case LContinue
    with Cons.prems(2) it have "listener_loop parse l1 c1 rs = (l', c', ctl)" by simp
    with inv1 show ?thesis by (rule Cons.IH)
  qed (use Cons.prems(2) it inv1 in simp_all)
qed

subsection \<open>Demultiplexing responses\<close>

text \<open>
  C1: a response frame whose id names a pending command removes the entry from
  the table and resolves that transaction with the decoded result, in the same
  iteration, and the loop goes on; the idle flag is cleared.
\<close>

theorem listener_resolves_response:
  assumes "c_websocket c" and "map_of msg ''id'' = Some (JInt i)"
    and "map_of (c_mapper c) i = Some oid" and "c_heap c ! oid = t"
    and "tx_state t = Pending" and "tx_kind t = CommandTx dec"
    and "map_of msg ''error'' = None" and "map_of msg ''result'' = Some r" and "dec r = Returns v"
  shows "listener_iter parse l c (RFrame msg) =
           (l\<lparr>l_idle := False\<rparr>,
            c\<lparr>c_mapper := AList.delete i (c_mapper c),
              c_heap := (c_heap c)[oid := t\<lparr>tx_state := Done (Decoded v)\<rparr>]\<rparr>,
            LContinue)"
  using assms by (simp add: listener_iter_def handle_response_def tx_call_result)

theorem listener_resolves_response_witness:
  "listener_iter sample_parse new_listener sample_conn
      (RFrame [(''id'', JInt 0), (''result'', JObj [(''y'', JInt 2)])]) =
   (new_listener\<lparr>l_idle := False\<rparr>,
    sample_conn\<lparr>c_mapper := [],
      c_heap := [sample_tx\<lparr>tx_state := Done (Decoded (JObj [(''y'', JInt 2)]))\<rparr>]\<rparr>,
    LContinue)"
  using listener_resolves_response [of sample_conn "[(''id'', JInt 0), (''result'', JObj [(''y'', JInt 2)])]"
      0 0 sample_tx Returns "JObj [(''y'', JInt 2)]" "JObj [(''y'', JInt 2)]" sample_parse new_listener]
  by (simp add: sample_conn_def sample_tx_def new_connection_def)

text \<open>
  C2: an error frame for a pending command fails that transaction with a
  \<open>ProtocolException\<close> carrying the remote code and message; the decoder is not
  run.
\<close>

theorem listener_fails_on_error_frame:
  assumes "c_websocket c" and "map_of msg ''id'' = Some (JInt i)"
    and "map_of (c_mapper c) i = Some oid" and "c_heap c ! oid = t"
    and "tx_state t = Pending" and "map_of msg ''error'' = Some (JObj err)"
  shows "listener_iter parse l c (RFrame msg) =
           (l\<lparr>l_idle := False\<rparr>,
            c\<lparr>c_mapper := AList.delete i (c_mapper c),
              c_heap := (c_heap c)[oid := t\<lparr>tx_state :=
                 Failed (ProtocolException (py_get err ''message'') (py_get err ''code''))\<rparr>]\<rparr>,
            LContinue)"
  using assms by (simp add: listener_iter_def handle_response_def tx_call_error)

theorem listener_fails_on_error_frame_witness:
  "listener_iter sample_parse new_listener sample_conn
      (RFrame [(''id'', JInt 0),
               (''error'', JObj [(''code'', JInt 5), (''message'', JStr ''boom'')])]) =
   (new_listener\<lparr>l_idle := False\<rparr>,
    sample_conn\<lparr>c_mapper := [],
      c_heap := [sample_tx\<lparr>tx_state :=
        Failed (ProtocolException (Some (JStr ''boom'')) (Some (JInt 5)))\<rparr>]\<rparr>,
    LContinue)"
  using listener_fails_on_error_frame [of sample_conn
      "[(''id'', JInt 0), (''error'', JObj [(''code'', JInt 5), (''message'', JStr ''boom'')])]"
      0 0 sample_tx "[(''code'', JInt 5), (''message'', JStr ''boom'')]" sample_parse new_listener]
  by (simp add: sample_conn_def sample_tx_def new_connection_def py_get_def)

text \<open>
  C3: a response frame whose integer id is not in the table (already resolved,
  evicted or foreign, the reserved id \<open>-2\<close> included) changes nothing but the
  idle flag, and the loop goes on.
\<close>

theorem listener_ignores_unknown_id:
  assumes "c_websocket c" and "map_of msg ''id'' = Some (JInt i)" and "map_of (c_mapper c) i = None"
  shows "listener_iter parse l c (RFrame msg) = (l\<lparr>l_idle := False\<rparr>, c, LContinue)"
  using assms by (auto simp: listener_iter_def handle_response_def)

theorem listener_ignores_unknown_id_witness:
  "listener_iter sample_parse new_listener sample_conn (RFrame [(''id'', JInt 99999), (''result'', JObj [])]) =
   (new_listener\<lparr>l_idle := False\<rparr>, sample_conn, LContinue)"
  using listener_ignores_unknown_id [of sample_conn "[(''id'', JInt 99999), (''result'', JObj [])]"
      99999 sample_parse new_listener]
  by (simp add: sample_conn_def new_connection_def)

text \<open>
  C4: the idle signal. A read that times out sets it and changes nothing else; any
  frame that arrives clears it.
\<close>

theorem listener_idle_signal:
  assumes "c_websocket c"
  shows "listener_iter parse l c RTimeout = (l\<lparr>l_idle := True\<rparr>, c, LContinue) \<and>
         (listener_iter parse l c (RFrame msg) = (l', c', ctl) \<longrightarrow> \<not> l_idle l')"
proof -
  have "l_idle l2 = l_idle l1" if "record_event l1 c ev = (l2, c2)" for l1 l2 c2 ev
    using that by (auto simp: record_event_def cleanup_cases Let_def split: prod.splits if_splits)
  with assms show ?thesis
    by (auto simp: listener_iter_def Let_def split: option.splits prod.splits)
qed

theorem listener_idle_signal_witness:
  "listener_iter sample_parse new_listener sample_conn RTimeout =
     (new_listener\<lparr>l_idle := True\<rparr>, sample_conn, LContinue) \<and>
   \<not> l_idle (fst (listener_iter sample_parse (new_listener\<lparr>l_idle := True\<rparr>) sample_conn
                    (RFrame [(''method'', JStr ''Network.requestWillBeSent'')])))"
proof -
  have ws: "c_websocket sample_conn" by (simp add: sample_conn_def)
  obtain l' c' ctl where it: "listener_iter sample_parse (new_listener\<lparr>l_idle := True\<rparr>) sample_conn
      (RFrame [(''method'', JStr ''Network.requestWillBeSent'')]) = (l', c', ctl)"
    by (metis prod.exhaust)
  have a: "listener_iter sample_parse new_listener sample_conn RTimeout =
      (new_listener\<lparr>l_idle := True\<rparr>, sample_conn, LContinue)"
    using listener_idle_signal [OF ws, of sample_parse new_listener] by blast
  have b: "\<not> l_idle l'"
    using listener_idle_signal [OF ws, of sample_parse "new_listener\<lparr>l_idle := True\<rparr>"] it by blast
  from a b it show ?thesis by simp
qed

subsection \<open>Event bookkeeping\<close>

lemma record_event_eq:
  assumes "length (l_event_ids l) < l_max_events l"
    and "eid = (if c_mapper c = [] then 0 else c_count c)"
  shows "record_event l c ev =
    (let m = AList.update eid (length (c_heap c)) (c_mapper c);
         (l3, m3) = cleanup_old_event_transactions (l\<lparr>l_event_ids := l_event_ids l @ [eid]\<rparr>) m
     in (l3, c\<lparr>c_count := eid + 1,
                c_heap := c_heap c @ [(event_transaction ev)\<lparr>tx_id := Some eid\<rparr>],
                c_mapper := m3\<rparr>))"
  using assms by (simp add: record_event_def Let_def)

lemma events_tracked_handle_response:
  assumes inv: "mapper_inv c" and tr: "events_tracked l c"
    and hr: "handle_response c msg idv = (c', ctl)"
  shows "events_tracked l c'"
proof -
  have upd: "tx_kind (xs[i := t'] ! j) = tx_kind (xs ! j)" if "tx_call (xs ! i) msg = Inr t'"
    for xs i j t'
    using tx_call_keeps_kind [OF that]
    by (cases "i = j"; cases "i < length xs") (simp_all add: list_update_beyond)
  have kinds: "tx_kind (c_heap c' ! oid) = tx_kind (c_heap c ! oid)" for oid
    using hr by (auto simp: handle_response_def Let_def upd
        split: sum.splits option.splits if_splits prod.splits)
  have sub: "set (c_mapper c') \<subseteq> set (c_mapper c)"
    using hr by (auto simp: handle_response_def Let_def dest: set_delete_subset [THEN subsetD]
        split: sum.splits option.splits if_splits prod.splits)
  from tr kinds sub show ?thesis by (auto simp: events_tracked_def)
qed

lemma record_event_tracked:
  assumes inv: "mapper_inv c" and ok: "listener_ok l" and tr: "events_tracked l c"
    and re: "record_event l c ev = (l', c')"
  shows "listener_ok l' \<and> events_tracked l' c' \<and> l_cleanup_threshold l' = l_cleanup_threshold l"
proof -
  let ?T = "l_cleanup_threshold l" and ?ids = "l_event_ids l"
  define eid where "eid = (if c_mapper c = [] then 0 else c_count c)"
  define m where "m = AList.update eid (length (c_heap c)) (c_mapper c)"
  define ids2 where "ids2 = ?ids @ [eid]"
  have below: "length ?ids < l_max_events l" using ok by (simp add: listener_ok_def)
  obtain l3 m3 where cl: "cleanup_old_event_transactions (l\<lparr>l_event_ids := ids2\<rparr>) m = (l3, m3)"
    by fastforce
  have c': "c' = c\<lparr>c_count := eid + 1,
                c_heap := c_heap c @ [(event_transaction ev)\<lparr>tx_id := Some eid\<rparr>], c_mapper := m3\<rparr>"
    and l': "l' = l3"
    using re cl below by (simp_all add: record_event_eq eid_def m_def ids2_def Let_def)
  have heap_old: "c_heap c' ! oid = c_heap c ! oid" if "oid < length (c_heap c)" for oid
    using that by (simp add: c' nth_append)
  have in_m: "k \<in> set ids2" if "(k, oid) \<in> set m" "tx_kind (c_heap c' ! oid) = EventTx" for k oid
  proof (cases "(k, oid) \<in> set (c_mapper c)")
    case True
    with inv have "oid < length (c_heap c)" by (auto simp: mapper_inv_def)
    with True that(2) tr show ?thesis
      by (auto simp: events_tracked_def heap_old ids2_def)
  next
    case False
    with that(1) have "k = eid" unfolding m_def by (auto dest: snd_set_update_subset_pair)
    then show ?thesis by (simp add: ids2_def)
  qed
  show ?thesis
  proof (cases "length ids2 < ?T")
    case True
    with cl have "l3 = l\<lparr>l_event_ids := ids2\<rparr>" "m3 = m" by (simp_all add: cleanup_cases)
    with True ok in_m show ?thesis
      by (auto simp: l' c' listener_ok_def events_tracked_def)
  next
    case False
    with ok have len: "length ids2 = ?T" by (simp add: listener_ok_def ids2_def)
    define n where "n = ?T - ?T div 2"
    have n0: "n \<noteq> 0" using ok unfolding n_def listener_ok_def by linarith
    with False cl len have l3: "l3 = l\<lparr>l_event_ids := drop n ids2\<rparr>"
      and m3: "m3 = filter (\<lambda>(k, _). k \<notin> set (take n ids2)) m"
      by (simp_all add: cleanup_cases n_def Let_def)
    have "length (drop n ids2) < ?T" using len ok by (simp add: n_def listener_ok_def)
    moreover have "k \<in> set (drop n ids2)"
      if "(k, oid) \<in> set m3" "tx_kind (c_heap c' ! oid) = EventTx" for k oid
    proof -
      from that m3 have "(k, oid) \<in> set m" "k \<notin> set (take n ids2)" by auto
      with that(2) in_m have "k \<in> set ids2" by blast
      with \<open>k \<notin> set (take n ids2)\<close> show ?thesis
        by (metis Un_iff append_take_drop_id set_append)
    qed
    ultimately show ?thesis using ok
      by (auto simp: l' l3 c' listener_ok_def events_tracked_def)
  qed
qed

lemma listener_iter_tracked:
  assumes inv: "mapper_inv c" and ok: "listener_ok l" and tr: "events_tracked l c"
    and it: "listener_iter parse l c r = (l', c', ctl)"
  shows "listener_ok l' \<and> events_tracked l' c' \<and> l_cleanup_threshold l' = l_cleanup_threshold l"
proof -
  have idle_ok: "listener_ok (l\<lparr>l_idle := b\<rparr>) = listener_ok l" for b
    by (simp add: listener_ok_def)
  have idle_tr: "events_tracked (l\<lparr>l_idle := b\<rparr>) c = events_tracked l c" for b c
    by (simp add: events_tracked_def)
  have disp: "events_tracked l2 (dispatch_event c2 ev) = events_tracked l2 c2" for l2 c2 ev
    by (simp add: dispatch_event_def events_tracked_def split: option.splits)
  show ?thesis
  proof (cases "c_websocket c \<and> (\<exists>msg. r = RFrame msg)")
    case False
    with it ok tr show ?thesis
      by (cases r; cases "c_websocket c") (auto simp: listener_iter_def idle_ok idle_tr)
  next
    case True
    then obtain msg where ws: "c_websocket c" and r: "r = RFrame msg" by blast
    show ?thesis
    proof (cases "map_of msg ''id''")
      case (Some idv)
      obtain c1 ctl1 where hr: "handle_response c msg idv = (c1, ctl1)" by fastforce
      with ws r Some it have "l' = l\<lparr>l_idle := False\<rparr>" "c' = c1"
        by (simp_all add: listener_iter_def)
      with hr inv ok tr show ?thesis
        by (simp add: idle_ok idle_tr events_tracked_handle_response)
    next
      case None
      show ?thesis
      proof (cases "parse msg")
        case None': None
        with None ws r it ok tr show ?thesis by (auto simp: listener_iter_def idle_ok idle_tr)
      next
        case (Some ev)
        obtain l2 c2 where re: "record_event (l\<lparr>l_idle := False\<rparr>) c ev = (l2, c2)" by fastforce
        have "listener_ok (l\<lparr>l_idle := False\<rparr>)" "events_tracked (l\<lparr>l_idle := False\<rparr>) c"
          using ok tr by (simp_all add: idle_ok idle_tr)
        from record_event_tracked [OF inv this re]
        have "listener_ok l2 \<and> events_tracked l2 c2 \<and> l_cleanup_threshold l2 = l_cleanup_threshold l"
          by simp
        moreover have "l' = l2" "c' = dispatch_event c2 ev"
          using Some None ws r it re by (simp_all add: listener_iter_def)
        ultimately show ?thesis by (simp add: disp)
      qed
    qed
  qed
qed

lemma events_bound:
  assumes inv: "mapper_inv c" and ok: "listener_ok l" and tr: "events_tracked l c"
  shows "length (event_entries c) < l_cleanup_threshold l"
proof -
  let ?E = "event_entries c"
  have "distinct (map fst (c_mapper c))" using inv by (simp add: mapper_inv_def dict_wf_def)
  then have dist: "distinct (map fst ?E)" by (simp add: event_entries_def distinct_map_filter)
  have "set (map fst ?E) \<subseteq> set (l_event_ids l)"
    using tr by (auto simp: event_entries_def events_tracked_def)
  then have "card (set (map fst ?E)) \<le> card (set (l_event_ids l))"
    by (simp add: card_mono)
  also have "\<dots> \<le> length (l_event_ids l)" by (rule card_length)
  finally have le: "card (set (map fst ?E)) \<le> length (l_event_ids l)" .
  have "card (set (map fst ?E)) = length ?E"
    using distinct_card [OF dist] by simp
  with le have "length ?E \<le> length (l_event_ids l)" by simp
  with ok show ?thesis by (simp add: listener_ok_def)
qed

lemma listener_loop_tracked:
  "mapper_inv c \<Longrightarrow> listener_ok l \<Longrightarrow> events_tracked l c \<Longrightarrow>
     listener_loop parse l c rs = (l', c', ctl) \<Longrightarrow>
     mapper_inv c' \<and> listener_ok l' \<and> events_tracked l' c' \<and>
     l_cleanup_threshold l' = l_cleanup_threshold l"
proof (induction rs arbitrary: l c)
  case Nil
  then show ?case by simp
next
  case (Cons r rs)
  obtain l1 c1 ctl1 where it: "listener_iter parse l c r = (l1, c1, ctl1)"
    by (cases "listener_iter parse l c r") auto
  have inv1: "mapper_inv c1" using Cons.prems(1) it by (rule listener_iter_mapper_inv)
  have st1: "listener_ok l1 \<and> events_tracked l1 c1 \<and> l_cleanup_threshold l1 = l_cleanup_threshold l"
    using Cons.prems(1-3) it by (rule listener_iter_tracked)
  show ?case
  proof (cases ctl1)
    case LContinue
    with Cons.prems(4) it have "listener_loop parse l1 c1 rs = (l', c', ctl)" by simp
    with Cons.IH inv1 st1 show ?thesis by auto
  qed (use Cons.prems(4) it inv1 st1 in \<open>auto simp: listener_ok_def events_tracked_def\<close>)
qed

text \<open>
  C5: an event frame is recorded before any handler is consulted: it gets the next
  id (from 0 when the table is empty), a resolved \<open>EventTransaction\<close> is stored
  under it, its id joins the deque, and every callback registered for the event's
  type is scheduled as a task of its own, in registration order; while the deque
  stays below the cleanup threshold nothing is evicted.
\<close>

theorem listener_records_event:
  assumes "c_websocket c" and "map_of msg ''id'' = None" and "parse msg = Some ev"
    and "length (l_event_ids l) + 1 < l_cleanup_threshold l"
    and "length (l_event_ids l) < l_max_events l"
    and "eid = (if c_mapper c = [] then 0 else c_count c)"
  shows "listener_iter parse l c (RFrame msg) =
           (l\<lparr>l_idle := False, l_event_ids := l_event_ids l @ [eid]\<rparr>,
            c\<lparr>c_count := eid + 1,
              c_heap := c_heap c @ [(event_transaction ev)\<lparr>tx_id := Some eid\<rparr>],
              c_mapper := AList.update eid (length (c_heap c)) (c_mapper c),
              c_tasks := c_tasks c @ map (\<lambda>h. (h, ev))
                 (case map_of (c_handlers c) (ev_type ev) of None \<Rightarrow> [] | Some cbs \<Rightarrow> cbs)\<rparr>,
            LContinue)"
  using assms
  by (auto simp: listener_iter_def record_event_eq cleanup_cases dispatch_event_def Let_def
      split: option.splits)

theorem listener_records_event_witness:
  "listener_iter sample_parse new_listener sample_conn
      (RFrame [(''method'', JStr ''Network.requestWillBeSent'')]) =
   (new_listener\<lparr>l_idle := False, l_event_ids := [1]\<rparr>,
    sample_conn\<lparr>c_count := 2,
      c_heap := [sample_tx, (event_transaction sample_event)\<lparr>tx_id := Some 1\<rparr>],
      c_mapper := [(0, 0), (1, 1)]\<rparr>,
    LContinue)"
  using listener_records_event [of sample_conn "[(''method'', JStr ''Network.requestWillBeSent'')]"
      sample_parse sample_event new_listener 1]
  by (simp add: sample_conn_def new_connection_def new_listener_def sample_parse_def
      MAX_EVENT_TRANSACTIONS_def CLEANUP_THRESHOLD_def)

text \<open>
  C8: memory bound. While one listener runs, whatever frames arrive, the number of
  event records held in the pending table stays below the listener's cleanup
  threshold, provided every event record in the table is one this listener
  tracks when it starts.
\<close>

theorem listener_loop_event_records_bounded:
  assumes "mapper_inv c" and "listener_ok l" and "events_tracked l c"
    and "listener_loop parse l c rs = (l', c', ctl)"
  shows "length (event_entries c') < l_cleanup_threshold l"
proof -
  from listener_loop_tracked [OF assms]
  have "mapper_inv c'" "listener_ok l'" "events_tracked l' c'"
    and "l_cleanup_threshold l' = l_cleanup_threshold l" by auto
  with events_bound show ?thesis by metis
qed

theorem listener_loop_event_records_bounded_witness:
  "length (event_entries (fst (snd (listener_loop sample_parse new_listener sample_conn
      (replicate 3 (RFrame [(''method'', JStr ''Network.requestWillBeSent'')])))))) < 8000"
proof -
  have inv: "mapper_inv sample_conn"
    by (simp add: mapper_inv_def sample_conn_def new_connection_def sample_tx_def dict_wf_def)
  have ok: "listener_ok new_listener"
    by (simp add: listener_ok_def new_listener_def MAX_EVENT_TRANSACTIONS_def CLEANUP_THRESHOLD_def)
  have tr: "events_tracked new_listener sample_conn"
    by (simp add: events_tracked_def sample_conn_def new_connection_def sample_tx_def)
  obtain l' c' ctl where run: "listener_loop sample_parse new_listener sample_conn
      (replicate 3 (RFrame [(''method'', JStr ''Network.requestWillBeSent'')])) = (l', c', ctl)"
    by (metis prod.exhaust)
  from listener_loop_event_records_bounded [OF inv ok tr run] run show ?thesis
    by (simp add: new_listener_def CLEANUP_THRESHOLD_def)
qed

text \<open>
  Eviction. When an event brings the deque to the cleanup threshold \<open>T\<close>, the
  oldest \<open>T - T div 2\<close> ids leave the deque and their entries leave the table in
  the same iteration, so \<open>T div 2\<close> ids remain.
\<close>

theorem record_event_evicts_oldest:
  assumes "listener_ok l" and "length (l_event_ids l) + 1 = l_cleanup_threshold l"
    and "eid = (if c_mapper c = [] then 0 else c_count c)"
    and "record_event l c ev = (l', c')"
  shows "l_event_ids l' =
           drop (l_cleanup_threshold l - l_cleanup_threshold l div 2) (l_event_ids l @ [eid]) \<and>
         length (l_event_ids l') = l_cleanup_threshold l div 2 \<and>
         c_mapper c' =
           filter (\<lambda>(k, _). k \<notin> set (take (l_cleanup_threshold l - l_cleanup_threshold l div 2)
                                          (l_event_ids l @ [eid])))
             (AList.update eid (length (c_heap c)) (c_mapper c))"
proof -
  have n0: "l_cleanup_threshold l - l_cleanup_threshold l div 2 \<noteq> 0"
    using assms(1) unfolding listener_ok_def by linarith
  have "length (l_event_ids l) < l_max_events l" using assms(1) by (simp add: listener_ok_def)
  with assms n0 show ?thesis
    by (auto simp: record_event_eq cleanup_cases Let_def)
qed

theorem record_event_evicts_oldest_witness:
  "l_event_ids (fst (record_event (new_listener\<lparr>l_cleanup_threshold := 4, l_event_ids := [1, 2, 3]\<rparr>)
                        (sample_conn\<lparr>c_count := 4\<rparr>) sample_event)) = [3, 4] \<and>
   c_mapper (snd (record_event (new_listener\<lparr>l_cleanup_threshold := 4, l_event_ids := [1, 2, 3]\<rparr>)
                        (sample_conn\<lparr>c_count := 4\<rparr>) sample_event)) = [(0, 0), (4, 1)]"
proof -
  let ?l = "new_listener\<lparr>l_cleanup_threshold := 4, l_event_ids := [1, 2, 3]\<rparr>"
  let ?c = "sample_conn\<lparr>c_count := 4\<rparr>"
  have ok: "listener_ok ?l" by (simp add: listener_ok_def new_listener_def MAX_EVENT_TRANSACTIONS_def)
  obtain l' c' where re: "record_event ?l ?c sample_event = (l', c')" by fastforce
  have "l_event_ids l' = drop (4 - 4 div 2) ([1, 2, 3] @ [4]) \<and>
        length (l_event_ids l') = 4 div 2 \<and>
        c_mapper c' = filter (\<lambda>(k, _). k \<notin> set (take (4 - 4 div 2) ([1, 2, 3] @ [4])))
                        (AList.update 4 (length (c_heap ?c)) (c_mapper ?c))"
    using record_event_evicts_oldest [OF ok _ _ re, of 4]
    by (simp add: sample_conn_def new_connection_def new_listener_def)
  with re show ?thesis by (simp add: sample_conn_def new_connection_def)
qed

text \<open>
  C9: a result the command's decoder cannot finish (\<open>send()\<close> on the generator
  yields again) is not turned into a failed transaction: \<open>__call__\<close> raises
  inside the reader loop, which dies, and the transaction, already popped from
  the table, stays pending for ever.
\<close>

theorem listener_dies_on_undecodable_result:
  assumes "c_websocket c" and "map_of msg ''id'' = Some (JInt i)"
    and "map_of (c_mapper c) i = Some oid" and "c_heap c ! oid = t"
    and "tx_state t = Pending" and "tx_kind t = CommandTx dec"
    and "map_of msg ''error'' = None" and "map_of msg ''result'' = Some r" and "dec r = YieldsAgain"
  shows "listener_iter parse l c (RFrame msg) =
           (l\<lparr>l_idle := False\<rparr>, c\<lparr>c_mapper := AList.delete i (c_mapper c)\<rparr>,
            LRaise (parse_failure msg))"
  using assms by (simp add: listener_iter_def handle_response_def tx_call_def)

theorem listener_dies_on_undecodable_result_witness:
  "listener_iter sample_parse new_listener
      (sample_conn\<lparr>c_heap := [sample_tx\<lparr>tx_kind := CommandTx (\<lambda>_. YieldsAgain)\<rparr>]\<rparr>)
      (RFrame [(''id'', JInt 0), (''result'', JObj [])]) =
   (new_listener\<lparr>l_idle := False\<rparr>,
    sample_conn\<lparr>c_heap := [sample_tx\<lparr>tx_kind := CommandTx (\<lambda>_. YieldsAgain)\<rparr>], c_mapper := []\<rparr>,
    LRaise (parse_failure [(''id'', JInt 0), (''result'', JObj [])]))"
  using listener_dies_on_undecodable_result
      [of "sample_conn\<lparr>c_heap := [sample_tx\<lparr>tx_kind := CommandTx (\<lambda>_. YieldsAgain)\<rparr>]\<rparr>"
          "[(''id'', JInt 0), (''result'', JObj [])]" 0 0 "sample_tx\<lparr>tx_kind := CommandTx (\<lambda>_. YieldsAgain)\<rparr>"
          "\<lambda>_. YieldsAgain" "JObj []" sample_parse new_listener]
  by (simp add: sample_conn_def new_connection_def sample_tx_def)

text \<open>
  Ordering. The loop processes outcomes strictly in arrival order, each one
  completely before the next, and nothing after a break or an exception.
\<close>

theorem listener_loop_append:
  "listener_loop parse l c (rs1 @ rs2) =
     (case listener_loop parse l c rs1 of
        (l', c', LContinue) \<Rightarrow> listener_loop parse l' c' rs2
      | res \<Rightarrow> res)"
proof (induction rs1 arbitrary: l c)
  case Nil
  then show ?case by simp
next
  case (Cons r rs)
  then show ?case
    by (cases "listener_iter parse l c r")
       (auto split: loop_ctl.splits prod.splits)
qed

end
