(* ===== verification/Connection.thy ===== *)
theory Connection
  imports Listener
begin

text \<open>
  The \<open>Connection\<close> operations of \<open>src/zendriver/core/connection.py\<close> other than
  the reader loop: the handler registry (\<open>add_handler\<close>, \<open>remove_handlers\<close>,
  lines 334--415), the socket half of \<open>aopen\<close> (lines 424--439), \<open>aclose\<close>
  (446--456), the steps of \<open>send\<close> that register and write a transaction and that
  read its outcome (563--581), and \<open>_send_oneshot\<close> (675--688).

  \<open>self.handlers\<close> is a \<open>collections.defaultdict(list)\<close>: reading a missing key
  inserts an empty list (\<open>dd_get\<close>).
\<close>

section \<open>The handler registry\<close>

definition dd_get :: "('k, 'v list) pydict \<Rightarrow> 'k \<Rightarrow> 'v list \<times> ('k, 'v list) pydict" where
  "dd_get d k = (case map_of d k of None \<Rightarrow> ([], AList.update k [] d) | Some vs \<Rightarrow> (vs, d))"

text \<open>\<open>self.handlers[k].append(h)\<close>.\<close>

definition dd_append :: "('k, 'v list) pydict \<Rightarrow> 'k \<Rightarrow> 'v \<Rightarrow> ('k, 'v list) pydict" where
  "dd_append d k v = (let (vs, d') = dd_get d k in AList.update k (vs @ [v]) d')"

text \<open>\<open>str.isupper()\<close> and the test on \<open>name[0]\<close>, on ASCII letters.\<close>

definition is_upper_char :: "char \<Rightarrow> bool" where
  "is_upper_char ch \<longleftrightarrow> (65::nat) \<le> of_char ch \<and> of_char ch \<le> (90::nat)"

definition is_lower_char :: "char \<Rightarrow> bool" where
  "is_lower_char ch \<longleftrightarrow> (97::nat) \<le> of_char ch \<and> of_char ch \<le> (122::nat)"

definition str_isupper :: "string \<Rightarrow> bool" where
  "str_isupper s \<longleftrightarrow> (\<exists>ch \<in> set s. is_upper_char ch) \<and> (\<forall>ch \<in> set s. \<not> is_lower_char ch)"

text \<open>
  The body of the \<open>for name, obj in inspect.getmembers_static(module)\<close> loop of
  \<open>add_handler\<close>: skip upper-case names, names not starting with a capital,
  objects whose type is exactly \<open>type\<close>, and builtins; register the rest. An empty
  name would make \<open>name[0]\<close> raise \<open>IndexError\<close> (\<open>ValueError\<close> here).
\<close>

fun add_module_members ::
  "(pyobj, handler list) pydict \<Rightarrow> (string \<times> pyobj) list \<Rightarrow> handler \<Rightarrow>
     py_exc + (pyobj, handler list) pydict" where
  "add_module_members d [] h = Inr d"
| "add_module_members d ((name, obj) # ms) h =
     (if str_isupper name then add_module_members d ms h
      else case name of
        [] \<Rightarrow> Inl ValueError
      | ch # _ \<Rightarrow>
          (if \<not> is_upper_char ch then add_module_members d ms h
           else if obj_kind obj = PlainClass then add_module_members d ms h
           else if obj_kind obj = BuiltinObj then add_module_members d ms h
           else add_module_members (dd_append d obj h) ms h))"

text \<open>
  The argument of \<open>add_handler\<close>: an event type, or a domain module given by its
  members in the order \<open>inspect.getmembers_static\<close> lists them.
\<close>

datatype handler_target = EventTarget pyobj | ModuleTarget "(string \<times> pyobj) list"

definition add_handler :: "conn \<Rightarrow> handler_target \<Rightarrow> handler \<Rightarrow> py_exc + conn" where
  "add_handler c tgt h =
     (case tgt of
        ModuleTarget ms \<Rightarrow>
          (case add_module_members (c_handlers c) ms h of
             Inl e \<Rightarrow> Inl e
           | Inr d \<Rightarrow> Inr (c\<lparr>c_handlers := d\<rparr>))
      | EventTarget t \<Rightarrow> Inr (c\<lparr>c_handlers := dd_append (c_handlers c) t h\<rparr>))"

text \<open>
  \<open>remove_handlers(event_type, handler)\<close>: a handler without an event type is a
  \<open>ValueError\<close>; no event type clears everything; an event type alone is
  \<open>del self.handlers[event_type]\<close> (a \<open>KeyError\<close> for a type never read or
  written); both remove the first occurrence of the handler, after the
  \<open>defaultdict\<close> read that inserts an empty list for an unknown type.
\<close>

definition remove_handlers :: "conn \<Rightarrow> pyobj option \<Rightarrow> handler option \<Rightarrow> py_exc + conn" where
  "remove_handlers c et h =
     (if h \<noteq> None \<and> et = None then Inl ValueError
      else case et of
        None \<Rightarrow> Inr (c\<lparr>c_handlers := []\<rparr>)
      | Some t \<Rightarrow>
          (case h of
             None \<Rightarrow>
               (if map_of (c_handlers c) t = None then Inl KeyError
                else Inr (c\<lparr>c_handlers := AList.delete t (c_handlers c)\<rparr>))
           | Some f \<Rightarrow>
               (let (vs, d) = dd_get (c_handlers c) t in
                if f \<in> set vs then Inr (c\<lparr>c_handlers := AList.update t (remove1 f vs) d\<rparr>)
                else Inr (c\<lparr>c_handlers := d\<rparr>))))"

section \<open>Opening and closing\<close>

text \<open>
  The socket part of \<open>aopen\<close>: with no socket, connect (\<open>connect_ok\<close> says
  whether \<open>websockets.connect\<close> succeeds) and start a new listener; on a failed
  connect cancel the existing listener and re-raise. With a socket, restart the
  listener if it is missing or finished. (\<open>aopen\<close> then calls
  \<open>_register_handlers\<close>.) Cancelling a task is modelled as the task being done:
  a cancelled loop processes no further outcome.
\<close>

text \<open>\<open>if not self.listener or not self.listener.running: self.listener = Listener(self)\<close>.\<close>

definition ensure_listener :: "conn \<Rightarrow> conn" where
  "ensure_listener c =
     (case c_listener c of
        Some l \<Rightarrow> (if l_running l then c else c\<lparr>c_listener := Some new_listener\<rparr>)
      | None \<Rightarrow> c\<lparr>c_listener := Some new_listener\<rparr>)"

definition aopen_connect :: "conn \<Rightarrow> bool \<Rightarrow> conn \<times> py_exc option" where
  "aopen_connect c connect_ok =
     (if \<not> c_websocket c then
        (if connect_ok then (c\<lparr>c_websocket := True, c_listener := Some new_listener\<rparr>, None)
         else (c\<lparr>c_listener := map_option (\<lambda>l. l\<lparr>l_running := False\<rparr>) (c_listener c)\<rparr>,
               Some ConnectError))
      else (ensure_listener c, None))"

text \<open>
  \<open>aclose\<close>: only a running listener is cancelled, and only then is the list of
  enabled domains cleared; the socket is dropped in either case.
\<close>

definition aclose :: "conn \<Rightarrow> conn" where
  "aclose c =
     (if c_websocket c then
        (case c_listener c of
           Some l \<Rightarrow>
             (if l_running l
              then c\<lparr>c_listener := Some (l\<lparr>l_running := False\<rparr>), c_enabled_domains := [],
                     c_websocket := False\<rparr>
              else c\<lparr>c_websocket := False\<rparr>)
         | None \<Rightarrow> c\<lparr>c_websocket := False\<rparr>)
      else c)"

section \<open>Sending\<close>

text \<open>
  Lines 563--572 of \<open>send\<close>: restart a finished listener, build the transaction,
  reset the counter if the table is empty, take the next id (under
  \<open>_current_id_mutex\<close>; nothing between the reset and the table update suspends)
  and store the transaction. The result is the new state and the identity of the
  transaction the caller awaits.
\<close>

definition send_enqueue :: "conn \<Rightarrow> cdp_command \<Rightarrow> conn \<times> (py_exc + nat)" where
  "send_enqueue c cmd =
     (let c1 = ensure_listener c
      in case new_transaction cmd of
           Inl e \<Rightarrow> (c1, Inl e)
         | Inr t \<Rightarrow>
             (let c2 = (if c_mapper c1 = [] then c1\<lparr>c_count := 0\<rparr> else c1);
                  i = c_count c2
              in (c2\<lparr>c_count := i + 1,
                      c_heap := c_heap c2 @ [t\<lparr>tx_id := Some i\<rparr>],
                      c_mapper := AList.update i (length (c_heap c2)) (c_mapper c2)\<rparr>,
                  Inr (length (c_heap c2)))))"

text \<open>Line 575: \<open>await self.websocket.send(tx.message)\<close>.\<close>

definition send_write :: "conn \<Rightarrow> nat \<Rightarrow> conn" where
  "send_write c oid = c\<lparr>c_sent := c_sent c @ [tx_message (c_heap c ! oid)]\<rparr>"

text \<open>
  Lines 576--581: once the transaction is resolved, \<open>send\<close> returns its value, or
  re-raises its \<open>ProtocolException\<close> with \<open>"\ncommand:{method}\nparams:{params}"\<close>
  appended to a message that is first replaced by \<open>""\<close> when false (a message that
  is not a string makes \<open>+=\<close> raise \<open>TypeError\<close>).
\<close>

definition augment_message :: "json \<Rightarrow> json \<Rightarrow> json option \<Rightarrow> json option \<Rightarrow> py_exc" where
  "augment_message meth params msg code =
     (let m0 = (case msg of Some m \<Rightarrow> if py_truthy m then m else JStr [] | None \<Rightarrow> JStr [])
      in case m0 of
           JStr s \<Rightarrow>
             ProtocolException
               (Some (JStr (s @ [CHR 0x0A] @ ''command:'' @ py_str meth @
                            [CHR 0x0A] @ ''params:'' @ py_str params))) code
         | _ \<Rightarrow> TypeError)"

definition send_result :: "conn \<Rightarrow> nat \<Rightarrow> (py_exc + result) option" where
  "send_result c oid =
     (let t = c_heap c ! oid in
      case tx_state t of
        Pending \<Rightarrow> None
      | Done r \<Rightarrow> Some (Inr r)
      | Failed (ProtocolException msg code) \<Rightarrow>
          Some (Inl (augment_message (tx_method t) (tx_params t) msg code))
      | Failed e \<Rightarrow> Some (Inl e))"

text \<open>
  \<open>_send_oneshot\<close>, up to its write: no socket is a \<open>ValueError\<close>; the
  transaction gets the reserved id \<open>-2\<close>, replacing any earlier one-shot entry.
\<close>

definition send_oneshot_enqueue :: "conn \<Rightarrow> cdp_command \<Rightarrow> conn \<times> (py_exc + nat)" where
  "send_oneshot_enqueue c cmd =
     (if \<not> c_websocket c then (c, Inl ValueError)
      else case new_transaction cmd of
        Inl e \<Rightarrow> (c, Inl e)
      | Inr t \<Rightarrow>
          (c\<lparr>c_heap := c_heap c @ [t\<lparr>tx_id := Some (-2)\<rparr>],
             c_mapper := AList.update (-2) (length (c_heap c)) (c_mapper c)\<rparr>,
           Inr (length (c_heap c))))"

section \<open>Sample inputs\<close>

definition sample_cmd :: cdp_command where
  "sample_cmd =
     \<lparr>cmd_request = [(''method'', JStr ''Foo.bar''), (''params'', JObj [(''x'', JInt 1)])],
      cmd_decode = Returns\<rparr>"

definition sample_module :: "(string \<times> pyobj) list" where
  "sample_module =
     [(''RequestWillBeSent'', PyObj ''network'' ''RequestWillBeSent'' PlainClass),
      (''ResourceType'', PyObj ''network'' ''ResourceType'' MetaClass),
      (''enable'', PyObj ''network'' ''enable'' OtherObj)]"

section \<open>Lemmas\<close>

lemma ensure_listener_fields [simp]:
  "c_mapper (ensure_listener c) = c_mapper c" "c_heap (ensure_listener c) = c_heap c"
  "c_count (ensure_listener c) = c_count c" "c_websocket (ensure_listener c) = c_websocket c"
  "c_handlers (ensure_listener c) = c_handlers c" "c_sent (ensure_listener c) = c_sent c"
  "c_enabled_domains (ensure_listener c) = c_enabled_domains c" "c_tasks (ensure_listener c) = c_tasks c"
  by (simp_all add: ensure_listener_def split: option.splits)

lemma send_enqueue_eq:
  assumes "new_transaction cmd = Inr t"
  shows "send_enqueue c cmd =
    (let c2 = (if c_mapper c = [] then (ensure_listener c)\<lparr>c_count := 0\<rparr> else ensure_listener c);
         i = c_count c2
     in (c2\<lparr>c_count := i + 1, c_heap := c_heap c @ [t\<lparr>tx_id := Some i\<rparr>],
                 c_mapper := AList.update i (length (c_heap c)) (c_mapper c)\<rparr>, Inr (length (c_heap c))))"
  using assms by (cases "c_mapper c = []") (simp_all add: send_enqueue_def Let_def)

lemma mapper_inv_listener_update [simp]:
  "mapper_inv (c\<lparr>c_listener := x\<rparr>) = mapper_inv c"
  by (simp add: mapper_inv_def)

lemma send_enqueue_entry:
  assumes "send_enqueue c cmd = (c', Inr oid)"
  shows "\<exists>t i. new_transaction cmd = Inr t \<and> i = (if c_mapper c = [] then 0 else c_count c) \<and>
     oid = length (c_heap c) \<and> c_heap c' = c_heap c @ [t\<lparr>tx_id := Some i\<rparr>] \<and>
     c_mapper c' = AList.update i oid (c_mapper c) \<and> c_count c' = i + 1 \<and>
     c_websocket c' = c_websocket c \<and> c_sent c' = c_sent c"
proof -
  obtain t where t: "new_transaction cmd = Inr t"
    using assms by (cases "new_transaction cmd") (simp_all add: send_enqueue_def Let_def)
  with assms show ?thesis
    by (cases "c_mapper c = []") (auto simp: send_enqueue_eq Let_def)
qed

lemma send_enqueue_mapper_inv:
  assumes inv: "mapper_inv c" and se: "send_enqueue c cmd = (c', res)"
  shows "mapper_inv c'"
proof (cases "new_transaction cmd")
  case (Inl e)
  with se inv show ?thesis
    by (auto simp: send_enqueue_def ensure_listener_def split: option.splits)
next
  case (Inr t)
  define c1 where "c1 = ensure_listener c"
  define c2 where "c2 = (if c_mapper c1 = [] then c1\<lparr>c_count := 0\<rparr> else c1)"
  have "mapper_inv c1" using inv by (simp add: c1_def ensure_listener_def split: option.splits)
  then have "mapper_inv c2" unfolding c2_def by (rule mapper_inv_reset)
  then have "mapper_inv (c2\<lparr>c_count := c_count c2 + 1, c_heap := c_heap c2 @ [t\<lparr>tx_id := Some (c_count c2)\<rparr>],
      c_mapper := AList.update (c_count c2) (length (c_heap c2)) (c_mapper c2)\<rparr>)"
    by (rule mapper_inv_insert)
  moreover have "c' = c2\<lparr>c_count := c_count c2 + 1, c_heap := c_heap c2 @ [t\<lparr>tx_id := Some (c_count c2)\<rparr>],
      c_mapper := AList.update (c_count c2) (length (c_heap c2)) (c_mapper c2)\<rparr>"
    using se Inr by (cases "c_mapper c = []") (auto simp: send_enqueue_def c1_def c2_def Let_def)
  ultimately show ?thesis by simp
qed

lemma send_write_mapper_inv [simp]: "mapper_inv (send_write c oid) = mapper_inv c"
  by (simp add: send_write_def mapper_inv_def)

lemma send_oneshot_mapper_inv:
  assumes inv: "mapper_inv c" and se: "send_oneshot_enqueue c cmd = (c', res)"
  shows "mapper_inv c'"
proof (cases "c_websocket c \<and> (\<exists>t. new_transaction cmd = Inr t)")
  case False
  with se inv show ?thesis
    by (cases "new_transaction cmd") (auto simp: send_oneshot_enqueue_def split: if_splits)
next
  case True
  then obtain t where t: "new_transaction cmd = Inr t" and ws: "c_websocket c" by blast
  let ?m = "c_mapper c" and ?h = "c_heap c"
  have c': "c' = c\<lparr>c_heap := ?h @ [t\<lparr>tx_id := Some (-2)\<rparr>],
      c_mapper := AList.update (-2) (length ?h) ?m\<rparr>"
    using se t ws by (simp add: send_oneshot_enqueue_def)
  have old: "k < c_count c \<and> oid < length ?h \<and> tx_id (?h ! oid) = Some k"
    if "(k, oid) \<in> set ?m" for k oid
    using inv that by (auto simp: mapper_inv_def)
  have fresh: "length ?h \<notin> snd ` set ?m" using old by fastforce
  have entries: "k < c_count c \<and> oid < Suc (length ?h) \<and>
      tx_id ((?h @ [t\<lparr>tx_id := Some (-2)\<rparr>]) ! oid) = Some k"
    if "(k, oid) \<in> set (AList.update (-2) (length ?h) ?m)" for k oid
  proof (cases "(k, oid) \<in> set ?m")
    case True
    with old have "k < c_count c" "oid < length ?h" "tx_id (?h ! oid) = Some k" by auto
    then show ?thesis by (simp add: nth_append)
  next
    case False
    with that have "k = -2" "oid = length ?h" by (auto dest: snd_set_update_subset_pair)
    with inv show ?thesis by (simp add: mapper_inv_def)
  qed
  have "distinct (map snd (AList.update (-2) (length ?h) ?m))"
    using inv fresh by (simp add: mapper_inv_def distinct_snd_update)
  with inv entries show ?thesis
    by (auto simp: c' mapper_inv_def)
qed

lemma add_handler_mapper_inv:
  "add_handler c tgt h = Inr c' \<Longrightarrow> mapper_inv c' = mapper_inv c"
  by (auto simp: add_handler_def mapper_inv_def split: handler_target.splits sum.splits)

lemma remove_handlers_mapper_inv:
  "remove_handlers c et h = Inr c' \<Longrightarrow> mapper_inv c' = mapper_inv c"
  by (auto simp: remove_handlers_def mapper_inv_def split: option.splits if_splits prod.splits)

lemma aclose_mapper_inv: "mapper_inv (aclose c) = mapper_inv c"
  by (auto simp: aclose_def mapper_inv_def split: option.splits)

lemma aopen_connect_mapper_inv:
  "aopen_connect c ok = (c', e) \<Longrightarrow> mapper_inv c' = mapper_inv c"
  by (auto simp: aopen_connect_def ensure_listener_def mapper_inv_def split: option.splits if_splits)

lemma add_module_members_plain:
  "add_module_members d ms h = Inr d' \<Longrightarrow> obj_kind k = PlainClass \<Longrightarrow> map_of d' k = map_of d k"
proof (induction d ms h rule: add_module_members.induct)
  case (1 d h)
  then show ?case by simp
next
  case (2 d name obj ms h)
  have "map_of (dd_append d obj h) k = map_of d k" if "obj_kind obj \<noteq> PlainClass"
    using that "2.prems"(2)
    by (auto simp: dd_append_def dd_get_def update_conv' split: option.splits)
  with 2 show ?case by (auto split: if_splits list.splits)
qed

subsection \<open>Claims\<close>

text \<open>
  C10: id assignment. \<open>send\<close> stores its transaction, still pending, under an id
  that no entry of the table holds; while the table is not empty that id is
  the counter, above every id in the table, so ids handed out between two
  moments where the table empties increase strictly. The table invariant is kept.
\<close>

theorem send_enqueue_fresh_id:
  assumes inv: "mapper_inv c" and se: "send_enqueue c cmd = (c', Inr oid)"
  shows "\<exists>i. map_of (c_mapper c) i = None \<and> map_of (c_mapper c') i = Some oid \<and>
             tx_id (c_heap c' ! oid) = Some i \<and> tx_state (c_heap c' ! oid) = Pending \<and>
             (c_mapper c \<noteq> [] \<longrightarrow> i = c_count c \<and> (\<forall>k \<in> dict_keys (c_mapper c). k < i)) \<and>
             c_count c' = i + 1 \<and> mapper_inv c'"
proof -
  obtain t i where t: "new_transaction cmd = Inr t" and i: "i = (if c_mapper c = [] then 0 else c_count c)"
    and c': "oid = length (c_heap c)" "c_heap c' = c_heap c @ [t\<lparr>tx_id := Some i\<rparr>]"
       "c_mapper c' = AList.update i oid (c_mapper c)" "c_count c' = i + 1"
    using send_enqueue_entry [OF se] by blast
  have fresh: "map_of (c_mapper c) i = None"
    using inv mapper_inv_fresh by (cases "c_mapper c = []") (auto simp: i)
  have below: "\<forall>k \<in> dict_keys (c_mapper c). k < c_count c"
    using inv by (auto simp: mapper_inv_def dict_keys_def)
  have "tx_state t = Pending" using t by (simp add: new_transaction_pending)
  with c' fresh below i have "map_of (c_mapper c) i = None \<and> map_of (c_mapper c') i = Some oid \<and>
             tx_id (c_heap c' ! oid) = Some i \<and> tx_state (c_heap c' ! oid) = Pending \<and>
             (c_mapper c \<noteq> [] \<longrightarrow> i = c_count c \<and> (\<forall>k \<in> dict_keys (c_mapper c). k < i)) \<and>
             c_count c' = i + 1"
    by (simp add: update_conv')
  moreover have "mapper_inv c'" using inv se by (rule send_enqueue_mapper_inv)
  ultimately show ?thesis by blast
qed

theorem send_enqueue_fresh_id_witness:
  "\<exists>i. map_of [(0::int, 0::nat)] i = None \<and> i = 1 \<and>
       map_of (c_mapper (fst (send_enqueue sample_conn sample_cmd))) i = Some 1"
proof -
  have inv: "mapper_inv sample_conn"
    by (simp add: mapper_inv_def sample_conn_def new_connection_def sample_tx_def dict_wf_def)
  have se: "send_enqueue sample_conn sample_cmd = (fst (send_enqueue sample_conn sample_cmd), Inr 1)"
    by (simp add: send_enqueue_def sample_conn_def new_connection_def sample_cmd_def
        new_transaction_def new_listener_def ensure_listener_def)
  from send_enqueue_fresh_id [OF inv se] obtain i where
    "map_of (c_mapper sample_conn) i = None" "map_of (c_mapper (fst (send_enqueue sample_conn sample_cmd))) i = Some 1"
    "c_mapper sample_conn \<noteq> [] \<longrightarrow> i = c_count sample_conn"
    by blast
  then show ?thesis by (auto simp: sample_conn_def new_connection_def)
qed

text \<open>
  C11: \<open>remove_handlers\<close> errors. A handler without an event type raises
  \<open>ValueError\<close>; removing all handlers of a type that was never registered raises
  \<open>KeyError\<close>; removing one handler of such a type raises nothing but leaves an
  empty list registered for the type (the \<open>defaultdict\<close> read).
\<close>

theorem remove_handlers_errors:
  "remove_handlers c None (Some f) = Inl ValueError \<and>
   (map_of (c_handlers c) t = None \<longrightarrow>
      remove_handlers c (Some t) None = Inl KeyError \<and>
      remove_handlers c (Some t) (Some f) = Inr (c\<lparr>c_handlers := c_handlers c @ [(t, [])]\<rparr>))"
  by (auto simp: remove_handlers_def dd_get_def update_fresh)

theorem remove_handlers_errors_witness:
  "remove_handlers sample_conn (Some (PyObj ''network'' ''RequestWillBeSent'' PlainClass)) None = Inl KeyError"
  using remove_handlers_errors [of sample_conn "Handler ''h'' False" "PyObj ''network'' ''RequestWillBeSent'' PlainClass"]
  by (simp add: sample_conn_def new_connection_def)

text \<open>
  C12: registering a handler for a whole domain module never registers it for a
  member whose type is exactly \<open>type\<close>, which is what every generated event
  dataclass is: the \<open>type(obj) is type\<close> test skips the events the docstring says
  are found, and only enum-like classes are registered.
\<close>

theorem add_handler_module_skips_plain_classes:
  assumes "add_handler c (ModuleTarget ms) h = Inr c'" and "obj_kind k = PlainClass"
  shows "map_of (c_handlers c') k = map_of (c_handlers c) k"
  using assms add_module_members_plain
  by (auto simp: add_handler_def split: sum.splits)

theorem add_handler_module_skips_plain_classes_witness:
  "c_handlers (projr (add_handler sample_conn (ModuleTarget sample_module) (Handler ''h'' False))) =
     [(PyObj ''network'' ''ResourceType'' MetaClass, [Handler ''h'' False])] \<and>
   map_of (c_handlers (projr (add_handler sample_conn (ModuleTarget sample_module) (Handler ''h'' False))))
     (PyObj ''network'' ''RequestWillBeSent'' PlainClass) = None"
proof -
  have add: "add_handler sample_conn (ModuleTarget sample_module) (Handler ''h'' False) =
      Inr (sample_conn\<lparr>c_handlers := [(PyObj ''network'' ''ResourceType'' MetaClass, [Handler ''h'' False])]\<rparr>)"
    by (simp add: add_handler_def sample_module_def sample_conn_def new_connection_def
        str_isupper_def is_upper_char_def is_lower_char_def dd_append_def dd_get_def)
  have "map_of (c_handlers (sample_conn\<lparr>c_handlers := [(PyObj ''network'' ''ResourceType'' MetaClass,
      [Handler ''h'' False])]\<rparr>)) (PyObj ''network'' ''RequestWillBeSent'' PlainClass) =
      map_of (c_handlers sample_conn) (PyObj ''network'' ''RequestWillBeSent'' PlainClass)"
    using add_handler_module_skips_plain_classes [OF add] by (simp add: sample_conn_def new_connection_def)
  with add show ?thesis by (simp add: sample_conn_def new_connection_def)
qed

text \<open>
  C14: \<open>aclose\<close> is idempotent, always leaves the connection closed, and clears the
  enabled domains only when the listener is still running: after a listener
  that died on its own (closed socket, exception), the domains stay marked as
  enabled, so the reconciliation after a reopen will not enable them again.
\<close>

theorem aclose_behaviour:
  "aclose (aclose c) = aclose c \<and> closed (aclose c) \<and>
   (c_websocket c \<longrightarrow>
      c_enabled_domains (aclose c) =
        (if \<exists>l. c_listener c = Some l \<and> l_running l then [] else c_enabled_domains c))"
  by (auto simp: aclose_def closed_def split: option.splits)

theorem aclose_behaviour_witness:
  "c_enabled_domains (aclose (sample_conn\<lparr>c_enabled_domains := [''network''],
       c_listener := Some (new_listener\<lparr>l_running := False\<rparr>)\<rparr>)) = [''network'']"
  using aclose_behaviour [of "sample_conn\<lparr>c_enabled_domains := [''network''],
       c_listener := Some (new_listener\<lparr>l_running := False\<rparr>)\<rparr>"]
  by (simp add: sample_conn_def new_connection_def)

text \<open>
  C13: a remote error reaches the caller of \<open>send\<close> as the \<open>ProtocolException\<close>
  with the same code and the message (or \<open>""\<close>) followed by the command's method
  and parameters.
\<close>

theorem send_result_protocol_error:
  assumes "c_heap c ! oid = t" and "tx_state t = Failed (ProtocolException msg code)"
    and "msg = None \<and> s = [] \<or> msg = Some (JStr s)"
  shows "send_result c oid =
           Some (Inl (ProtocolException
             (Some (JStr (s @ [CHR 0x0A] @ ''command:'' @ py_str (tx_method t) @
                          [CHR 0x0A] @ ''params:'' @ py_str (tx_params t)))) code))"
  using assms by (auto simp: send_result_def augment_message_def)

theorem send_result_protocol_error_witness:
  "send_result (sample_conn\<lparr>c_heap := [sample_tx\<lparr>tx_state :=
      Failed (ProtocolException (Some (JStr ''boom'')) (Some (JInt 5)))\<rparr>]\<rparr>) 0 =
   Some (Inl (ProtocolException
      (Some (JStr (''boom'' @ [CHR 0x0A] @ ''command:Foo.bar'' @ [CHR 0x0A] @ ''params:'' @
                   py_str (JObj [(''x'', JInt 1)])))) (Some (JInt 5))))"
  using send_result_protocol_error [of "sample_conn\<lparr>c_heap := [sample_tx\<lparr>tx_state :=
      Failed (ProtocolException (Some (JStr ''boom'')) (Some (JInt 5)))\<rparr>]\<rparr>" 0
      "sample_tx\<lparr>tx_state := Failed (ProtocolException (Some (JStr ''boom'')) (Some (JInt 5)))\<rparr>"
      "Some (JStr ''boom'')" "Some (JInt 5)" "''boom''"]
  by (simp add: sample_tx_def)

end
