(* ===== verification/Domains.thy ===== *)
theory Domains
  imports Connection
begin

text \<open>
  Domain reconciliation: \<open>Connection._register_handlers\<close> (lines 584--634 of
  \<open>src/zendriver/core/connection.py\<close>) together with the calls it makes, the
  nested \<open>send(domain.enable(), _is_update=True)\<close> and the \<open>aopen()\<close> that
  call runs first, which reconciles again. The browser's side is a parameter:
  whether connecting succeeds and whether it accepts a command.
\<close>

section \<open>The domains of the handler registry\<close>

text \<open>\<open>isinstance(event_type, type)\<close>: classes, plain or built by a metaclass.\<close>

definition is_class :: "pyobj \<Rightarrow> bool" where
  "is_class k \<longleftrightarrow> obj_kind k = PlainClass \<or> obj_kind k = MetaClass"

text \<open>\<open>(cdp.target, cdp.storage)\<close>: domains taken as enabled by default.\<close>

definition always_enabled :: "string list" where
  "always_enabled = [''target'', ''storage'']"

text \<open>\<open>domain_mod.enable()\<close>: the request, and a decoder that returns \<open>None\<close>.\<close>

definition enable_cmd :: "string \<Rightarrow> cdp_command" where
  "enable_cmd d =
     \<lparr>cmd_request = [(''method'', JStr (d @ ''.enable'')), (''params'', JObj [])],
      cmd_decode = (\<lambda>_. Returns JNull)\<rparr>"

section \<open>The browser\<close>

record browser =
  br_connects :: bool
  br_accepts :: "json \<Rightarrow> bool"

definition answer_frame :: "browser \<Rightarrow> int \<Rightarrow> json \<Rightarrow> jobj" where
  "answer_frame b i meth =
     (if br_accepts b meth then [(''id'', JInt i), (''result'', JObj [])]
      else [(''id'', JInt i),
            (''error'', JObj [(''code'', JInt (-32000)), (''message'', JStr ''Not allowed'')])])"

text \<open>The connection's running listener reads one frame.\<close>

definition deliver :: "conn \<Rightarrow> jobj \<Rightarrow> conn" where
  "deliver c msg =
     (case c_listener c of
        None \<Rightarrow> c
      | Some l \<Rightarrow>
          (if l_running l then
             (case listener_iter (\<lambda>_. None) l c (RFrame msg) of
                (l', c', ctl) \<Rightarrow>
                  c'\<lparr>c_listener := Some (if ctl = LContinue then l' else l'\<lparr>l_running := False\<rparr>)\<rparr>)
           else c))"

text \<open>
  \<open>return await tx\<close>: the browser answers the frame just written, the listener
  resolves the transaction, and \<open>send\<close> returns or raises. A transaction the
  answer leaves pending is awaited for ever (\<open>None\<close>).
\<close>

definition send_await :: "browser \<Rightarrow> conn \<Rightarrow> nat \<Rightarrow> (conn \<times> py_exc option) option" where
  "send_await b c oid =
     (case tx_id (c_heap c ! oid) of
        None \<Rightarrow> None
      | Some i \<Rightarrow>
          (let c' = deliver c (answer_frame b i (tx_method (c_heap c ! oid)))
           in case send_result c' oid of
                None \<Rightarrow> None
              | Some (Inr _) \<Rightarrow> Some (c', None)
              | Some (Inl e) \<Rightarrow> Some (c', Some e)))"

section \<open>Reconciliation\<close>

text \<open>
  The last loop, \<open>for ed in enabled_domains: self.enabled_domains.remove(ed)\<close>:
  \<open>list.remove\<close> raises \<open>ValueError\<close> for a value no longer in the list.
\<close>

fun remove_unused :: "string list \<Rightarrow> conn \<Rightarrow> conn \<times> py_exc option" where
  "remove_unused [] c = (c, None)"
| "remove_unused (d # ds) c =
     (if d \<in> set (c_enabled_domains c)
      then remove_unused ds (c\<lparr>c_enabled_domains := remove1 d (c_enabled_domains c)\<rparr>)
      else (c, Some ValueError))"

text \<open>
  \<open>reg_loop\<close> is the \<open>for event_type in self.handlers.copy()\<close> loop over the
  snapshot of the keys, with \<open>tmp\<close> the copy \<open>enabled_domains\<close>;
  \<open>register_handlers\<close> is \<open>_register_handlers\<close>; \<open>aopen\<close> is \<open>aopen\<close>;
  \<open>send_update\<close> is \<open>send(cmd, _is_update=True)\<close> up to the value it returns or
  the exception it raises. The fuel \<open>n\<close> bounds the nesting of reconciliations
  inside enable commands; \<open>None\<close> is a run that does not return.
\<close>

fun reg_loop :: "nat \<Rightarrow> browser \<Rightarrow> pyobj list \<Rightarrow> string list \<Rightarrow> conn \<Rightarrow> (conn \<times> string list) option"
and register_handlers :: "nat \<Rightarrow> browser \<Rightarrow> conn \<Rightarrow> (conn \<times> py_exc option) option"
and aopen :: "nat \<Rightarrow> browser \<Rightarrow> conn \<Rightarrow> (conn \<times> py_exc option) option"
and send_update :: "nat \<Rightarrow> browser \<Rightarrow> cdp_command \<Rightarrow> conn \<Rightarrow> (conn \<times> py_exc option) option"
where
  "reg_loop n b [] tmp c = Some (c, tmp)"
| "reg_loop n b (et # ets) tmp c =
     (case dd_get (c_handlers c) et of
        (hs, hm) \<Rightarrow>
          (if hs = [] then reg_loop n b ets tmp (c\<lparr>c_handlers := AList.delete et hm\<rparr>)
           else if \<not> is_class et then reg_loop n b ets tmp (c\<lparr>c_handlers := hm\<rparr>)
           else if obj_module et \<in> set (c_enabled_domains c)
           then reg_loop n b ets (remove1 (obj_module et) tmp) (c\<lparr>c_handlers := hm\<rparr>)
           else if obj_module et \<in> set always_enabled then reg_loop n b ets tmp (c\<lparr>c_handlers := hm\<rparr>)
           else
             (case n of
                0 \<Rightarrow> None
              | Suc m \<Rightarrow>
                  (case send_update m b (enable_cmd (obj_module et))
                          (c\<lparr>c_handlers := hm,
                              c_enabled_domains := c_enabled_domains c @ [obj_module et]\<rparr>) of
                     None \<Rightarrow> None
                   | Some (c2, None) \<Rightarrow> reg_loop n b ets tmp c2
                   | Some (c2, Some e) \<Rightarrow>
                       reg_loop n b ets tmp
                         (c2\<lparr>c_enabled_domains := remove1 (obj_module et) (c_enabled_domains c2)\<rparr>)))))"
| "register_handlers n b c =
     (case reg_loop n b (map fst (c_handlers c)) (c_enabled_domains c) c of
        None \<Rightarrow> None
      | Some (c1, tmp) \<Rightarrow> Some (remove_unused tmp c1))"
| "aopen n b c =
     (case aopen_connect c (br_connects b) of
        (c1, Some e) \<Rightarrow> Some (c1, Some e)
      | (c1, None) \<Rightarrow> register_handlers n b c1)"
| "send_update n b cmd c =
     (case aopen n b c of
        None \<Rightarrow> None
      | Some (c1, Some e) \<Rightarrow> Some (c1, Some e)
      | Some (c1, None) \<Rightarrow>
          (if \<not> c_websocket c1 then Some (c1, None)
           else case send_enqueue c1 cmd of
             (c2, Inl e) \<Rightarrow> Some (c2, Some e)
           | (c2, Inr oid) \<Rightarrow> send_await b (send_write c2 oid) oid))"

section \<open>The whole send\<close>

datatype send_outcome = SendRaised py_exc | SendNoSocket | SendAwaiting nat

text \<open>
  \<open>send(cmd)\<close> (lines 537--575) for a connection without an owning browser:
  \<open>aopen\<close> (which reconciles), the early return without a socket, the listener
  restart and the registration of the transaction, a second reconciliation,
  and the write. The caller then awaits the transaction, which the listener
  resolves.
\<close>

definition send :: "nat \<Rightarrow> browser \<Rightarrow> cdp_command \<Rightarrow> conn \<Rightarrow> (conn \<times> send_outcome) option" where
  "send n b cmd c =
     (case aopen n b c of
        None \<Rightarrow> None
      | Some (c1, Some e) \<Rightarrow> Some (c1, SendRaised e)
      | Some (c1, None) \<Rightarrow>
          (if \<not> c_websocket c1 then Some (c1, SendNoSocket)
           else case send_enqueue c1 cmd of
             (c2, Inl e) \<Rightarrow> Some (c2, SendRaised e)
           | (c2, Inr oid) \<Rightarrow>
               (case register_handlers n b c2 of
                  None \<Rightarrow> None
                | Some (c3, Some e) \<Rightarrow> Some (c3, SendRaised e)
                | Some (c3, None) \<Rightarrow> Some (send_write c3 oid, SendAwaiting oid))))"

section \<open>What reconciliation leaves alone\<close>

text \<open>\<open>self.handlers[k]\<close> as the \<open>defaultdict\<close> reads it.\<close>

definition handlers_of :: "conn \<Rightarrow> pyobj \<Rightarrow> handler list" where
  "handlers_of c k = fst (dd_get (c_handlers c) k)"

text \<open>The domains some handler needs: the modules of classes with a handler.\<close>

definition used_domains :: "conn \<Rightarrow> string set" where
  "used_domains c = {obj_module k | k. handlers_of c k \<noteq> [] \<and> is_class k}"

text \<open>
  What a reconciliation step keeps: the handlers as the \<open>defaultdict\<close> reads them, the
  frames already written, the socket, the table invariant, and, while the list
  of enabled domains has no duplicate, no duplicate, every enabled domain some
  handler uses, and no domain that is neither enabled before nor used.
\<close>

definition reg_rel :: "conn \<Rightarrow> conn \<Rightarrow> bool" where
  "reg_rel c c' \<longleftrightarrow>
     handlers_of c' = handlers_of c \<and>
     (\<exists>fs. c_sent c' = c_sent c @ fs) \<and>
     (c_websocket c \<longrightarrow> c_websocket c') \<and>
     (mapper_inv c \<longrightarrow> mapper_inv c') \<and>
     (distinct (c_enabled_domains c) \<longrightarrow>
        distinct (c_enabled_domains c') \<and>
        set (c_enabled_domains c) \<inter> used_domains c \<subseteq> set (c_enabled_domains c') \<and>
        set (c_enabled_domains c') \<subseteq> set (c_enabled_domains c) \<union> used_domains c)"

section \<open>Lemmas\<close>

lemma listener_iter_frame:
  assumes "listener_iter parse l c r = (l', c', ctl)"
  shows "c_handlers c' = c_handlers c \<and> c_enabled_domains c' = c_enabled_domains c \<and>
         c_sent c' = c_sent c \<and> c_websocket c' = c_websocket c"
  using assms
  by (auto simp: listener_iter_def handle_response_def record_event_def dispatch_event_def Let_def
      split: recv.splits option.splits if_splits prod.splits sum.splits)

lemma deliver_frame [simp]:
  "c_handlers (deliver c m) = c_handlers c" "c_enabled_domains (deliver c m) = c_enabled_domains c"
  "c_sent (deliver c m) = c_sent c" "c_websocket (deliver c m) = c_websocket c"
  by (auto simp: deliver_def dest: listener_iter_frame split: option.splits prod.splits)

lemma deliver_mapper_inv: "mapper_inv c \<Longrightarrow> mapper_inv (deliver c m)"
  by (auto simp: deliver_def dest: listener_iter_mapper_inv split: option.splits prod.splits)

lemma send_await_frame:
  "send_await b c oid = Some (c', e) \<Longrightarrow> \<exists>m. c' = deliver c m"
  by (auto simp: send_await_def Let_def split: option.splits sum.splits)

lemma send_enqueue_frame:
  assumes "send_enqueue c cmd = (c', r)"
  shows "c_handlers c' = c_handlers c \<and> c_enabled_domains c' = c_enabled_domains c \<and>
         c_sent c' = c_sent c \<and> c_websocket c' = c_websocket c"
  using assms
  by (cases "c_mapper c = []") (auto simp: send_enqueue_def Let_def split: sum.splits)

lemma send_write_fields [simp]:
  "c_handlers (send_write c oid) = c_handlers c"
  "c_enabled_domains (send_write c oid) = c_enabled_domains c"
  "c_websocket (send_write c oid) = c_websocket c"
  "c_sent (send_write c oid) = c_sent c @ [tx_message (c_heap c ! oid)]"
  by (simp_all add: send_write_def)

lemma aopen_connect_frame:
  assumes "aopen_connect c ok = (c', e)"
  shows "c_handlers c' = c_handlers c \<and> c_enabled_domains c' = c_enabled_domains c \<and>
         c_sent c' = c_sent c \<and> (c_websocket c \<longrightarrow> c_websocket c' \<and> e = None)"
  using assms by (auto simp: aopen_connect_def split: if_splits)

lemma remove1_set_bounds:
  "set (remove1 d xs) \<subseteq> set xs \<and> set xs - {d} \<subseteq> set (remove1 d xs)"
proof -
  have "x \<in> set (remove1 d xs)" if "x \<in> set xs" "x \<noteq> d" for x
    using that by (simp add: in_set_remove1)
  then show ?thesis using set_remove1_subset [of d xs] by blast
qed

lemma remove_unused_frame:
  assumes "remove_unused ds c = (c', e)"
  shows "c' = c\<lparr>c_enabled_domains := c_enabled_domains c'\<rparr> \<and>
    set (c_enabled_domains c) - set ds \<subseteq> set (c_enabled_domains c') \<and>
    set (c_enabled_domains c') \<subseteq> set (c_enabled_domains c) \<and>
    (distinct (c_enabled_domains c) \<longrightarrow> distinct (c_enabled_domains c')) \<and>
    (e = None \<longrightarrow> distinct (c_enabled_domains c) \<longrightarrow> distinct ds \<longrightarrow>
       set (c_enabled_domains c') = set (c_enabled_domains c) - set ds)"
  using assms
proof (induction ds c rule: remove_unused.induct)
  case (2 d ds c)
  show ?case
  proof (cases "d \<in> set (c_enabled_domains c)")
    case True
    let ?E = "c_enabled_domains c"
    have sub: "set (remove1 d ?E) \<subseteq> set ?E" "set ?E - {d} \<subseteq> set (remove1 d ?E)"
      using remove1_set_bounds [of d ?E] by blast+
    have dist: "distinct ?E \<Longrightarrow> distinct (remove1 d ?E) \<and> set (remove1 d ?E) = set ?E - {d}"
      by simp
    from "2.prems" True have rec: "remove_unused ds (c\<lparr>c_enabled_domains := remove1 d ?E\<rparr>) = (c', e)"
      by simp
    note IH = "2.IH" [OF True rec]
    have i1: "c' = c\<lparr>c_enabled_domains := c_enabled_domains c'\<rparr>" using IH [THEN conjunct1] by simp
    have i2: "set (remove1 d ?E) - set ds \<subseteq> set (c_enabled_domains c')"
      using IH [THEN conjunct2, THEN conjunct1] by simp
    have i3: "set (c_enabled_domains c') \<subseteq> set (remove1 d ?E)"
      using IH [THEN conjunct2, THEN conjunct2, THEN conjunct1] by simp
    have i4: "distinct (remove1 d ?E) \<longrightarrow> distinct (c_enabled_domains c')"
      using IH [THEN conjunct2, THEN conjunct2, THEN conjunct2, THEN conjunct1] by simp
    have i5: "e = None \<longrightarrow> distinct (remove1 d ?E) \<longrightarrow> distinct ds \<longrightarrow>
       set (c_enabled_domains c') = set (remove1 d ?E) - set ds"
      using IH [THEN conjunct2, THEN conjunct2, THEN conjunct2, THEN conjunct2] by simp
    have "set ?E - set (d # ds) \<subseteq> set (c_enabled_domains c')" using i2 sub(2) by auto
    moreover have "set (c_enabled_domains c') \<subseteq> set ?E" using i3 sub(1) by (rule subset_trans)
    moreover have "distinct ?E \<longrightarrow> distinct (c_enabled_domains c')" using i4 by simp
    moreover have "e = None \<longrightarrow> distinct ?E \<longrightarrow> distinct (d # ds) \<longrightarrow>
       set (c_enabled_domains c') = set ?E - set (d # ds)"
      using i5 dist by auto
    ultimately show ?thesis using True i1 by simp
  next
    case False
    with "2.prems" show ?thesis by auto
  qed
qed simp

lemma used_domains_cong: "handlers_of c' = handlers_of c \<Longrightarrow> used_domains c' = used_domains c"
  by (simp add: used_domains_def)

lemma reg_rel_refl [intro, simp]: "reg_rel c c"
  by (auto simp: reg_rel_def)

lemma reg_relD:
  assumes "reg_rel c c'"
  shows "handlers_of c' = handlers_of c" "\<exists>fs. c_sent c' = c_sent c @ fs"
    "c_websocket c \<Longrightarrow> c_websocket c'" "mapper_inv c \<Longrightarrow> mapper_inv c'"
    "distinct (c_enabled_domains c) \<Longrightarrow> distinct (c_enabled_domains c')"
    "distinct (c_enabled_domains c) \<Longrightarrow>
       set (c_enabled_domains c) \<inter> used_domains c \<subseteq> set (c_enabled_domains c')"
    "distinct (c_enabled_domains c) \<Longrightarrow>
       set (c_enabled_domains c') \<subseteq> set (c_enabled_domains c) \<union> used_domains c"
  using assms unfolding reg_rel_def by blast+

lemma reg_relI:
  assumes "handlers_of c' = handlers_of c" "\<exists>fs. c_sent c' = c_sent c @ fs"
    "c_websocket c \<Longrightarrow> c_websocket c'" "mapper_inv c \<Longrightarrow> mapper_inv c'"
    "distinct (c_enabled_domains c) \<Longrightarrow> distinct (c_enabled_domains c')"
    "distinct (c_enabled_domains c) \<Longrightarrow>
       set (c_enabled_domains c) \<inter> used_domains c \<subseteq> set (c_enabled_domains c')"
    "distinct (c_enabled_domains c) \<Longrightarrow>
       set (c_enabled_domains c') \<subseteq> set (c_enabled_domains c) \<union> used_domains c"
  shows "reg_rel c c'"
  using assms unfolding reg_rel_def by blast

lemma reg_rel_trans:
  assumes r1: "reg_rel c1 c2" and r2: "reg_rel c2 c3"
  shows "reg_rel c1 c3"
proof (rule reg_relI)
  note a = reg_relD [OF r1] and b = reg_relD [OF r2]
  have u: "used_domains c2 = used_domains c1"
    using a(1) by (rule used_domains_cong)
  show "handlers_of c3 = handlers_of c1" using a(1) b(1) by simp
  show "\<exists>fs. c_sent c3 = c_sent c1 @ fs" using a(2) b(2) by auto
  show "c_websocket c1 \<Longrightarrow> c_websocket c3" using a(3) b(3) by blast
  show "mapper_inv c1 \<Longrightarrow> mapper_inv c3" using a(4) b(4) by blast
  assume d: "distinct (c_enabled_domains c1)"
  show "distinct (c_enabled_domains c3)" using a(5) [OF d] b(5) by blast
  show "set (c_enabled_domains c1) \<inter> used_domains c1 \<subseteq> set (c_enabled_domains c3)"
    using a(6) [OF d] b(6) [OF a(5) [OF d]] u by blast
  show "set (c_enabled_domains c3) \<subseteq> set (c_enabled_domains c1) \<union> used_domains c1"
    using a(7) [OF d] b(7) [OF a(5) [OF d]] u by blast
qed

lemma handlers_of_eq: "handlers_of c k = (case map_of (c_handlers c) k of None \<Rightarrow> [] | Some vs \<Rightarrow> vs)"
  by (simp add: handlers_of_def dd_get_def split: option.splits)

lemma handlers_of_key:
  "handlers_of c k \<noteq> [] \<Longrightarrow> k \<in> set (map fst (c_handlers c))"
  by (force simp: handlers_of_eq split: option.splits dest: map_of_SomeD)

lemma handlers_of_dd_get:
  assumes "dd_get (c_handlers c) et = (hs, hm)"
  shows "handlers_of (c\<lparr>c_handlers := hm\<rparr>) = handlers_of c"
    and "hs = [] \<Longrightarrow> handlers_of (c\<lparr>c_handlers := AList.delete et hm\<rparr>) = handlers_of c"
    and "hs = handlers_of c et"
proof -
  have "map_of hm k = (if k = et then Some hs else map_of (c_handlers c) k) \<and>
        hs = handlers_of c et" for k
    using assms by (cases "map_of (c_handlers c) et") (auto simp: dd_get_def handlers_of_eq update_conv')
  then have hm: "map_of hm k = (if k = et then Some hs else map_of (c_handlers c) k)"
    and hs: "hs = handlers_of c et" for k
    by blast+
  show "hs = handlers_of c et" by (rule hs)
  show "handlers_of (c\<lparr>c_handlers := hm\<rparr>) = handlers_of c"
  proof
    fix k show "handlers_of (c\<lparr>c_handlers := hm\<rparr>) k = handlers_of c k"
      using hm [of k] hs by (cases "k = et") (simp_all add: handlers_of_eq)
  qed
  show "handlers_of (c\<lparr>c_handlers := AList.delete et hm\<rparr>) = handlers_of c" if "hs = []"
  proof
    fix k show "handlers_of (c\<lparr>c_handlers := AList.delete et hm\<rparr>) k = handlers_of c k"
      using hm [of k] hs that by (cases "k = et") (simp_all add: handlers_of_eq delete_conv')
  qed
qed

lemma handlers_of_cong: "c_handlers c' = c_handlers c \<Longrightarrow> handlers_of c' = handlers_of c"
  by (rule ext) (simp add: handlers_of_def)

lemma reg_rel_same:
  assumes "handlers_of c' = handlers_of c" "c_sent c' = c_sent c" "c_websocket c' = c_websocket c"
    "mapper_inv c \<Longrightarrow> mapper_inv c'" "c_enabled_domains c' = c_enabled_domains c"
  shows "reg_rel c c'"
proof -
  have "used_domains c' = used_domains c" using assms(1) by (rule used_domains_cong)
  then show ?thesis by (intro reg_relI) (use assms in simp_all)
qed

lemma reg_rel_deliver: "reg_rel c (deliver c m)"
  by (rule reg_rel_same) (simp_all add: deliver_mapper_inv handlers_of_cong [of "deliver c m" c])

lemma reg_rel_send_write: "reg_rel c (send_write c oid)"
proof (rule reg_relI)
  show "handlers_of (send_write c oid) = handlers_of c" by (rule handlers_of_cong) simp
qed simp_all

lemma reg_rel_send_enqueue:
  assumes "send_enqueue c cmd = (c', r)"
  shows "reg_rel c c'"
proof (rule reg_rel_same)
  note f = send_enqueue_frame [OF assms]
  show "handlers_of c' = handlers_of c" using f by (intro handlers_of_cong) simp
qed (use send_enqueue_frame [OF assms] send_enqueue_mapper_inv [OF _ assms] in simp_all)

lemma reg_rel_aopen_connect:
  assumes "aopen_connect c ok = (c', e)"
  shows "reg_rel c c'"
proof (rule reg_relI)
  note f = aopen_connect_frame [OF assms]
  show "handlers_of c' = handlers_of c" using f by (intro handlers_of_cong) simp
  show "\<exists>fs. c_sent c' = c_sent c @ fs" using f by simp
  show "c_websocket c \<Longrightarrow> c_websocket c'" using f by simp
  show "mapper_inv c \<Longrightarrow> mapper_inv c'" using aopen_connect_mapper_inv [OF assms] by simp
qed (use aopen_connect_frame [OF assms] in simp_all)

lemma used_domainsI: "handlers_of c et \<noteq> [] \<Longrightarrow> is_class et \<Longrightarrow> obj_module et \<in> used_domains c"
  by (auto simp: used_domains_def)

lemma remove_unused_fields:
  "remove_unused ds c = (c', e) \<Longrightarrow>
     c_handlers c' = c_handlers c \<and> c_sent c' = c_sent c \<and> c_websocket c' = c_websocket c \<and>
     mapper_inv c' = mapper_inv c"
  by (induction ds c rule: remove_unused.induct) (auto simp: mapper_inv_def split: if_splits)

lemma send_enqueue_listener:
  "send_enqueue c cmd = (c', r) \<Longrightarrow> \<exists>l. c_listener c' = Some l \<and> l_running l"
  by (cases "c_mapper c = []")
     (auto simp: send_enqueue_def ensure_listener_def new_listener_def Let_def
           split: sum.splits option.splits if_splits)

end
