(* ===== verification/Reconcile.thy ===== *)
theory Reconcile
  imports Domains "HOL-Library.Multiset"
begin

text \<open>
  Properties of \<open>_register_handlers\<close> (theory \<open>Domains\<close>): what it preserves
  through any nesting of \<open>enable\<close> commands, that enough fuel makes it return,
  that with a browser accepting every \<open>enable\<close> it enables each needed domain
  exactly once, and the \<open>ValueError\<close> a stale domain causes.
\<close>

section \<open>Definitions\<close>

text \<open>What one pass of the loop does to the copy \<open>tmp\<close> of the enabled domains.\<close>

definition tmp_ok :: "conn \<Rightarrow> pyobj list \<Rightarrow> string list \<Rightarrow> string list \<Rightarrow> bool" where
  "tmp_ok c ets tmp tmp' \<longleftrightarrow>
     set tmp' \<subseteq> set tmp \<and> (distinct tmp \<longrightarrow> distinct tmp') \<and> set tmp - used_domains c \<subseteq> set tmp' \<and>
     (distinct (c_enabled_domains c) \<longrightarrow> distinct tmp \<longrightarrow>
        (\<forall>et \<in> set ets. handlers_of c et \<noteq> [] \<and> is_class et \<and> obj_module et \<in> set (c_enabled_domains c) \<longrightarrow>
           obj_module et \<notin> set tmp'))"

text \<open>The domains a handler needs that are neither enabled nor on by default.\<close>

definition pending_domains :: "conn \<Rightarrow> string set" where
  "pending_domains c = used_domains c - set always_enabled - set (c_enabled_domains c)"

text \<open>The \<open>"method"\<close> of each frame written between two states.\<close>

definition sent_methods :: "conn \<Rightarrow> conn \<Rightarrow> json option list" where
  "sent_methods c c' = map (\<lambda>f. map_of f ''method'') (drop (length (c_sent c)) (c_sent c'))"

definition enable_method :: "string \<Rightarrow> json option" where
  "enable_method d = Some (JStr (d @ ''.enable''))"

text \<open>
  The regime of the completeness result: a connected socket, a browser that
  accepts every \<open>enable\<close>, and no stale entry in \<open>enabled_domains\<close>.
\<close>

definition rec_ok :: "browser \<Rightarrow> conn \<Rightarrow> bool" where
  "rec_ok b c \<longleftrightarrow> distinct (c_enabled_domains c) \<and> set (c_enabled_domains c) \<subseteq> used_domains c \<and>
     c_websocket c \<and> (\<forall>m. br_accepts b m)"

text \<open>\<open>enabled_domains\<close> grows by \<open>ds\<close> and one \<open>enable\<close> frame is written per domain of \<open>ds\<close>.\<close>

definition grows :: "conn \<Rightarrow> conn \<Rightarrow> string list \<Rightarrow> bool" where
  "grows c c' ds \<longleftrightarrow> c_enabled_domains c' = c_enabled_domains c @ ds \<and>
     set ds \<inter> set always_enabled = {} \<and> mset (sent_methods c c') = mset (map enable_method ds)"

definition ev_request :: pyobj where "ev_request = PyObj ''Network'' ''RequestWillBeSent'' PlainClass"

definition ev_response :: pyobj where "ev_response = PyObj ''Network'' ''ResponseReceived'' PlainClass"

definition ev_load :: pyobj where "ev_load = PyObj ''Page'' ''LoadEventFired'' PlainClass"

definition accepting :: browser where "accepting = \<lparr>br_connects = True, br_accepts = (\<lambda>_. True)\<rparr>"

definition reg_sample :: conn where
  "reg_sample = new_connection\<lparr>c_websocket := True, c_listener := Some new_listener,
     c_handlers := [(ev_request, [Handler ''a'' True]), (ev_response, [Handler ''b'' True]),
                    (ev_load, [Handler ''c'' True])]\<rparr>"

definition stale_sample :: conn where
  "stale_sample = new_connection\<lparr>c_websocket := True, c_listener := Some new_listener,
     c_handlers := [(ev_request, [Handler ''a'' True])], c_enabled_domains := [''Fetch'']\<rparr>"

section \<open>The preserved relation\<close>

lemma tmp_okD:
  assumes "tmp_ok c ets tmp tmp'"
  shows "set tmp' \<subseteq> set tmp" "distinct tmp \<Longrightarrow> distinct tmp'" "set tmp - used_domains c \<subseteq> set tmp'"
    "distinct (c_enabled_domains c) \<Longrightarrow> distinct tmp \<Longrightarrow> et \<in> set ets \<Longrightarrow> handlers_of c et \<noteq> [] \<Longrightarrow>
       is_class et \<Longrightarrow> obj_module et \<in> set (c_enabled_domains c) \<Longrightarrow> obj_module et \<notin> set tmp'"
  using assms unfolding tmp_ok_def by blast+

lemma tmp_okI:
  assumes "set tmp' \<subseteq> set tmp" "distinct tmp \<Longrightarrow> distinct tmp'" "set tmp - used_domains c \<subseteq> set tmp'"
    "\<And>et. distinct (c_enabled_domains c) \<Longrightarrow> distinct tmp \<Longrightarrow> et \<in> set ets \<Longrightarrow> handlers_of c et \<noteq> [] \<Longrightarrow>
       is_class et \<Longrightarrow> obj_module et \<in> set (c_enabled_domains c) \<Longrightarrow> obj_module et \<notin> set tmp'"
  shows "tmp_ok c ets tmp tmp'"
  using assms unfolding tmp_ok_def by blast

text \<open>A later key whose domain is enabled at the start is still seen enabled.\<close>

lemma tmp_ok_tail:
  assumes r: "reg_rel c c1" and t: "tmp_ok c1 ets tmp1 tmp'" and d: "distinct (c_enabled_domains c)"
    and dt: "distinct tmp1" and x: "x \<in> set ets"
    and hx: "handlers_of c x \<noteq> []" "is_class x" "obj_module x \<in> set (c_enabled_domains c)"
  shows "obj_module x \<notin> set tmp'"
proof -
  note rr = reg_relD [OF r]
  have "obj_module x \<in> used_domains c" using hx(1,2) by (rule used_domainsI)
  then have "obj_module x \<in> set (c_enabled_domains c1)" using rr(6) [OF d] hx(3) by blast
  moreover have "handlers_of c1 x \<noteq> []" using hx(1) rr(1) by simp
  ultimately show ?thesis using tmp_okD(4) [OF t rr(5) [OF d] dt x] hx(2) by blast
qed

lemma tmp_ok_step:
  assumes r: "reg_rel c c1" and t: "tmp_ok c1 ets tmp tmp'"
    and head: "\<not> (handlers_of c et \<noteq> [] \<and> is_class et \<and> obj_module et \<in> set (c_enabled_domains c))"
  shows "tmp_ok c (et # ets) tmp tmp'"
proof (rule tmp_okI)
  have u: "used_domains c1 = used_domains c" using reg_relD(1) [OF r] by (rule used_domains_cong)
  show "set tmp' \<subseteq> set tmp" "distinct tmp \<Longrightarrow> distinct tmp'" using tmp_okD(1,2) [OF t] by simp_all
  show "set tmp - used_domains c \<subseteq> set tmp'" using tmp_okD(3) [OF t] u by simp
  fix x assume "distinct (c_enabled_domains c)" "distinct tmp" "x \<in> set (et # ets)"
    "handlers_of c x \<noteq> []" "is_class x" "obj_module x \<in> set (c_enabled_domains c)"
  then show "obj_module x \<notin> set tmp'"
    using head tmp_ok_tail [OF r t] by auto
qed

lemma tmp_ok_seen:
  assumes r: "reg_rel c c1" and t: "tmp_ok c1 ets (remove1 (obj_module et) tmp) tmp'"
    and h: "handlers_of c et \<noteq> []" "is_class et"
  shows "tmp_ok c (et # ets) tmp tmp'"
proof (rule tmp_okI)
  have u: "used_domains c1 = used_domains c" using reg_relD(1) [OF r] by (rule used_domains_cong)
  have used: "obj_module et \<in> used_domains c" using h by (rule used_domainsI)
  have b: "set (remove1 (obj_module et) tmp) \<subseteq> set tmp"
    "set tmp - {obj_module et} \<subseteq> set (remove1 (obj_module et) tmp)"
    using remove1_set_bounds [of "obj_module et" tmp] by blast+
  show "set tmp' \<subseteq> set tmp" using tmp_okD(1) [OF t] b(1) by blast
  show "distinct tmp \<Longrightarrow> distinct tmp'" using tmp_okD(2) [OF t] by simp
  show "set tmp - used_domains c \<subseteq> set tmp'" using tmp_okD(3) [OF t] u b(2) used by blast
  fix x assume d: "distinct (c_enabled_domains c)" "distinct tmp" and x: "x \<in> set (et # ets)"
    and hx: "handlers_of c x \<noteq> []" "is_class x" "obj_module x \<in> set (c_enabled_domains c)"
  show "obj_module x \<notin> set tmp'"
  proof (cases "x = et")
    case True
    then show ?thesis using tmp_okD(1) [OF t] d(2) by auto
  next
    case False
    then show ?thesis using tmp_ok_tail [OF r t d(1) _ _ hx] d(2) x by simp
  qed
qed

text \<open>Appending a domain before its \<open>enable\<close> command, and taking it back on failure.\<close>

lemma reg_rel_enable:
  assumes dd: "dd_get (c_handlers c) et = (hs, hm)" and h: "hs \<noteq> []" "is_class et"
    and d: "obj_module et \<notin> set (c_enabled_domains c)"
  shows "reg_rel c (c\<lparr>c_handlers := hm, c_enabled_domains := c_enabled_domains c @ [obj_module et]\<rparr>)"
proof (rule reg_relI)
  let ?c1 = "c\<lparr>c_handlers := hm, c_enabled_domains := c_enabled_domains c @ [obj_module et]\<rparr>"
  have "handlers_of ?c1 = handlers_of (c\<lparr>c_handlers := hm\<rparr>)" by (rule handlers_of_cong) simp
  then show "handlers_of ?c1 = handlers_of c" using handlers_of_dd_get(1) [OF dd] by simp
  have "obj_module et \<in> used_domains c"
    using h handlers_of_dd_get(3) [OF dd] by (auto intro: used_domainsI)
  then show "set (c_enabled_domains ?c1) \<subseteq> set (c_enabled_domains c) \<union> used_domains c" by auto
qed (use d in \<open>auto simp: mapper_inv_def\<close>)

lemma reg_rel_enable_failed:
  assumes dd: "dd_get (c_handlers c) et = (hs, hm)" and h: "hs \<noteq> []" "is_class et"
    and d: "obj_module et \<notin> set (c_enabled_domains c)"
    and r: "reg_rel (c\<lparr>c_handlers := hm, c_enabled_domains := c_enabled_domains c @ [obj_module et]\<rparr>) c2"
  shows "reg_rel c (c2\<lparr>c_enabled_domains := remove1 (obj_module et) (c_enabled_domains c2)\<rparr>)"
proof (rule reg_relI)
  let ?c1 = "c\<lparr>c_handlers := hm, c_enabled_domains := c_enabled_domains c @ [obj_module et]\<rparr>"
  let ?c3 = "c2\<lparr>c_enabled_domains := remove1 (obj_module et) (c_enabled_domains c2)\<rparr>"
  note r1 = reg_relD [OF reg_rel_enable [OF dd h d]] and r2 = reg_relD [OF r]
  have u1: "used_domains ?c1 = used_domains c" using r1(1) by (rule used_domains_cong)
  have "used_domains c2 = used_domains ?c1" using r2(1) by (rule used_domains_cong)
  with u1 have u: "used_domains c2 = used_domains c" "used_domains ?c1 = used_domains c" by simp_all
  have "handlers_of ?c3 = handlers_of c2" by (rule handlers_of_cong) simp
  then show "handlers_of ?c3 = handlers_of c" using r1(1) r2(1) by simp
  show "\<exists>fs. c_sent ?c3 = c_sent c @ fs" using r2(2) by simp
  show "c_websocket c \<Longrightarrow> c_websocket ?c3" using r2(3) by simp
  show "mapper_inv c \<Longrightarrow> mapper_inv ?c3" using r2(4) by (simp add: mapper_inv_def)
  assume dc: "distinct (c_enabled_domains c)"
  then have dc1: "distinct (c_enabled_domains ?c1)" using d by simp
  have b: "set (remove1 (obj_module et) (c_enabled_domains c2)) \<subseteq> set (c_enabled_domains c2)"
    "set (c_enabled_domains c2) - {obj_module et} \<subseteq> set (remove1 (obj_module et) (c_enabled_domains c2))"
    using remove1_set_bounds [of "obj_module et" "c_enabled_domains c2"] by blast+
  show "distinct (c_enabled_domains ?c3)" using r2(5) [OF dc1] by simp
  have "set (c_enabled_domains c) \<inter> used_domains c \<subseteq> set (c_enabled_domains c2)"
    using r2(6) [OF dc1] u by auto
  then show "set (c_enabled_domains c) \<inter> used_domains c \<subseteq> set (c_enabled_domains ?c3)"
    using b(2) d by auto
  have "obj_module et \<in> used_domains c"
    using h handlers_of_dd_get(3) [OF dd] by (auto intro: used_domainsI)
  then show "set (c_enabled_domains ?c3) \<subseteq> set (c_enabled_domains c) \<union> used_domains c"
    using r2(7) [OF dc1] u b(1) by auto
qed

text \<open>
  The last loop of \<open>_register_handlers\<close> removes only domains no handler uses:
  every used domain that was enabled at the start was seen by the loop.
\<close>

lemma register_step:
  assumes r: "reg_rel c c1" and t: "tmp_ok c (map fst (c_handlers c)) (c_enabled_domains c) tmp'"
    and ru: "remove_unused tmp' c1 = (c', e)"
  shows "reg_rel c c' \<and>
    (e = None \<longrightarrow> distinct (c_enabled_domains c) \<longrightarrow> set (c_enabled_domains c') \<subseteq> used_domains c)"
proof
  note rr = reg_relD [OF r] and f = remove_unused_frame [OF ru] and g = remove_unused_fields [OF ru]
  have disj: "set tmp' \<inter> used_domains c = {}" if dc: "distinct (c_enabled_domains c)"
  proof -
    have "d \<notin> set tmp'" if du: "d \<in> used_domains c" for d
    proof -
      obtain k where k: "handlers_of c k \<noteq> []" "is_class k" "obj_module k = d"
        using du by (auto simp: used_domains_def)
      show ?thesis
      proof (cases "d \<in> set (c_enabled_domains c)")
        case True
        with tmp_okD(4) [OF t dc dc handlers_of_key [OF k(1)] k(1,2)] k(3) show ?thesis by simp
      next
        case False
        with tmp_okD(1) [OF t] show ?thesis by blast
      qed
    qed
    then show ?thesis by blast
  qed
  show rel: "reg_rel c c'"
  proof (rule reg_relI)
    have "handlers_of c' = handlers_of c1" using g by (intro handlers_of_cong) simp
    then show "handlers_of c' = handlers_of c" using rr(1) by simp
    show "\<exists>fs. c_sent c' = c_sent c @ fs" using rr(2) g by simp
    show "c_websocket c \<Longrightarrow> c_websocket c'" using rr(3) g by simp
    show "mapper_inv c \<Longrightarrow> mapper_inv c'" using rr(4) g by simp
    assume dc: "distinct (c_enabled_domains c)"
    show "distinct (c_enabled_domains c')" using f rr(5) [OF dc] by blast
    show "set (c_enabled_domains c) \<inter> used_domains c \<subseteq> set (c_enabled_domains c')"
      using rr(6) [OF dc] disj [OF dc] f by blast
    show "set (c_enabled_domains c') \<subseteq> set (c_enabled_domains c) \<union> used_domains c"
      using rr(7) [OF dc] f by blast
  qed
  show "e = None \<longrightarrow> distinct (c_enabled_domains c) \<longrightarrow> set (c_enabled_domains c') \<subseteq> used_domains c"
  proof (intro impI)
    assume e: "e = None" and dc: "distinct (c_enabled_domains c)"
    have dt: "distinct tmp'" using tmp_okD(2) [OF t] dc by simp
    have "set (c_enabled_domains c') = set (c_enabled_domains c1) - set tmp'"
      using f e rr(5) [OF dc] dt by blast
    moreover have "set (c_enabled_domains c) - used_domains c \<subseteq> set tmp'" using tmp_okD(3) [OF t] .
    ultimately show "set (c_enabled_domains c') \<subseteq> used_domains c" using rr(7) [OF dc] by blast
  qed
qed

text \<open>
  What reconciliation preserves, through any nesting of \<open>enable\<close> commands:
  the handlers, the frames already written, the socket, the table invariant,
  and the enabled domains that some handler uses.
\<close>

lemma reconcile_rel:
  shows "reg_loop n b ets tmp c = Some (c', tmp') \<Longrightarrow> reg_rel c c' \<and> tmp_ok c ets tmp tmp'"
    and "register_handlers n b c = Some (c', e) \<Longrightarrow> reg_rel c c' \<and>
           (e = None \<longrightarrow> distinct (c_enabled_domains c) \<longrightarrow> set (c_enabled_domains c') \<subseteq> used_domains c)"
    and "aopen n b c = Some (c', e) \<Longrightarrow> reg_rel c c'"
    and "send_update n b cmd c = Some (c', e) \<Longrightarrow> reg_rel c c'"
proof (induction n b ets tmp c and n b c and n b c and n b cmd c arbitrary: c' tmp' and c' e and c' e and c' e
    rule: reg_loop_register_handlers_aopen_send_update.induct)
  case (1 n b tmp c)
  then show ?case by (auto simp: tmp_ok_def)
next
  case (2 n b et ets tmp c)
  obtain hs hm where dd: "dd_get (c_handlers c) et = (hs, hm)" by fastforce
  note dd' = dd [symmetric]
  have hs: "hs = handlers_of c et" by (rule handlers_of_dd_get(3) [OF dd])
  let ?d = "obj_module et"
  let ?c1 = "c\<lparr>c_handlers := hm\<rparr>"
  have r1: "reg_rel c ?c1"
    by (rule reg_rel_same) (simp_all add: handlers_of_dd_get(1) [OF dd] mapper_inv_def)
  consider (empty) "hs = []" | (nocls) "hs \<noteq> []" "\<not> is_class et"
    | (seen) "hs \<noteq> []" "is_class et" "?d \<in> set (c_enabled_domains c)"
    | (always) "hs \<noteq> []" "is_class et" "?d \<notin> set (c_enabled_domains c)" "?d \<in> set always_enabled"
    | (enable) "hs \<noteq> []" "is_class et" "?d \<notin> set (c_enabled_domains c)" "?d \<notin> set always_enabled"
    by blast
  then show ?case
  proof cases
    case empty
    let ?c0 = "c\<lparr>c_handlers := AList.delete et hm\<rparr>"
    have run: "reg_loop n b ets tmp ?c0 = Some (c', tmp')" using "2.prems" dd empty by simp
    note ih = "2.IH"(1) [OF dd' empty run]
    have r: "reg_rel c ?c0"
      by (rule reg_rel_same) (simp_all add: handlers_of_dd_get(2) [OF dd empty] mapper_inv_def)
    have "tmp_ok c (et # ets) tmp tmp'" by (rule tmp_ok_step [OF r ih [THEN conjunct2]]) (use empty hs in simp)
    with reg_rel_trans [OF r ih [THEN conjunct1]] show ?thesis by simp
  next
    case nocls
    have run: "reg_loop n b ets tmp ?c1 = Some (c', tmp')" using "2.prems" dd nocls by simp
    note ih = "2.IH"(2) [OF dd' nocls run]
    have "tmp_ok c (et # ets) tmp tmp'" by (rule tmp_ok_step [OF r1 ih [THEN conjunct2]]) (use nocls in simp)
    with reg_rel_trans [OF r1 ih [THEN conjunct1]] show ?thesis by simp
  next
    case seen
    have nn: "\<not> \<not> is_class et" using seen(2) by simp
    have run: "reg_loop n b ets (remove1 ?d tmp) ?c1 = Some (c', tmp')" using "2.prems" dd seen by simp
    note ih = "2.IH"(3) [OF dd' seen(1) nn seen(3) run]
    have "tmp_ok c (et # ets) tmp tmp'"
      by (rule tmp_ok_seen [OF r1 ih [THEN conjunct2]]) (use seen hs in simp_all)
    with reg_rel_trans [OF r1 ih [THEN conjunct1]] show ?thesis by simp
  next
    case always
    have nn: "\<not> \<not> is_class et" using always(2) by simp
    have run: "reg_loop n b ets tmp ?c1 = Some (c', tmp')" using "2.prems" dd always by simp
    note ih = "2.IH"(4) [OF dd' always(1) nn always(3,4) run]
    have "tmp_ok c (et # ets) tmp tmp'" by (rule tmp_ok_step [OF r1 ih [THEN conjunct2]]) (use always in simp)
    with reg_rel_trans [OF r1 ih [THEN conjunct1]] show ?thesis by simp
  next
    case enable
    have nn: "\<not> \<not> is_class et" using enable(2) by simp
    let ?c2 = "c\<lparr>c_handlers := hm, c_enabled_domains := c_enabled_domains c @ [?d]\<rparr>"
    obtain m where n: "n = Suc m" using "2.prems" dd enable by (cases n) simp_all
    obtain c2 r where su: "send_update m b (enable_cmd ?d) ?c2 = Some (c2, r)"
      using "2.prems" dd enable n by (auto split: option.splits)
    have r2: "reg_rel c c2"
      using reg_rel_trans [OF reg_rel_enable [OF dd enable(1,2,3)] "2.IH"(5) [OF dd' enable(1) nn enable(3,4) n su]] .
    show ?thesis
    proof (cases r)
      case None
      have run: "reg_loop n b ets tmp c2 = Some (c', tmp')" using "2.prems" dd enable n su None by simp
      note ih = "2.IH"(6) [OF dd' enable(1) nn enable(3,4) n su refl None run]
      have "tmp_ok c (et # ets) tmp tmp'" by (rule tmp_ok_step [OF r2 ih [THEN conjunct2]]) (use enable in simp)
      with reg_rel_trans [OF r2 ih [THEN conjunct1]] show ?thesis by simp
    next
      case (Some x)
      let ?c3 = "c2\<lparr>c_enabled_domains := remove1 ?d (c_enabled_domains c2)\<rparr>"
      have r3: "reg_rel c ?c3"
        by (rule reg_rel_enable_failed [OF dd enable(1,2,3) "2.IH"(5) [OF dd' enable(1) nn enable(3,4) n su]])
      have run: "reg_loop n b ets tmp ?c3 = Some (c', tmp')" using "2.prems" dd enable n su Some by simp
      note ih = "2.IH"(7) [OF dd' enable(1) nn enable(3,4) n su refl Some run]
      have "tmp_ok c (et # ets) tmp tmp'" by (rule tmp_ok_step [OF r3 ih [THEN conjunct2]]) (use enable in simp)
      with reg_rel_trans [OF r3 ih [THEN conjunct1]] show ?thesis by simp
    qed
  qed
next
  case (3 n b c)
  obtain c1 tmp' where loop: "reg_loop n b (map fst (c_handlers c)) (c_enabled_domains c) c = Some (c1, tmp')"
    and ru: "remove_unused tmp' c1 = (c', e)"
    using "3.prems" by (auto split: option.splits)
  note ih = "3.IH" [OF loop]
  show ?case by (rule register_step [OF ih [THEN conjunct1] ih [THEN conjunct2] ru])
next
  case (4 n b c)
  obtain c1 err where ac: "aopen_connect c (br_connects b) = (c1, err)" by fastforce
  show ?case
  proof (cases err)
    case None
    have "register_handlers n b c1 = Some (c', e)" using "4.prems" ac None by simp
    from reg_rel_trans [OF reg_rel_aopen_connect [OF ac] "4.IH" [OF ac [symmetric] None this, THEN conjunct1]]
    show ?thesis .
  next
    case (Some x)
    then show ?thesis using "4.prems" ac reg_rel_aopen_connect [OF ac] by simp
  qed
next
  case (5 n b cmd c)
  obtain c1 err where ao: "aopen n b c = Some (c1, err)" using "5.prems" by (auto split: option.splits)
  note r1 = "5.IH" [OF ao]
  show ?case
  proof (cases "err = None \<and> c_websocket c1")
    case False
    then have "c' = c1" using "5.prems" ao by (auto split: option.splits)
    with r1 show ?thesis by simp
  next
    case True
    obtain c2 res where se: "send_enqueue c1 cmd = (c2, res)" by fastforce
    note r2 = reg_rel_trans [OF r1 reg_rel_send_enqueue [OF se]]
    show ?thesis
    proof (cases res)
      case (Inl x)
      then have "c' = c2" using "5.prems" ao True se by simp
      with r2 show ?thesis by simp
    next
      case (Inr oid)
      then have "send_await b (send_write c2 oid) oid = Some (c', e)" using "5.prems" ao True se by simp
      then obtain m where "c' = deliver (send_write c2 oid) m" using send_await_frame by blast
      with reg_rel_trans [OF reg_rel_trans [OF r2 reg_rel_send_write] reg_rel_deliver] show ?thesis by simp
    qed
  qed
qed

section \<open>Termination\<close>

lemma finite_used_domains: "finite (used_domains c)"
proof -
  have "used_domains c \<subseteq> obj_module ` set (map fst (c_handlers c))"
    by (auto simp: used_domains_def dest: handlers_of_key)
  then show ?thesis by (rule finite_subset) simp
qed

lemma pending_domains_mono:
  assumes r: "reg_rel c c'" and d: "distinct (c_enabled_domains c)"
  shows "pending_domains c' \<subseteq> pending_domains c"
proof -
  note rr = reg_relD [OF r]
  have "used_domains c' = used_domains c" using rr(1) by (rule used_domains_cong)
  then show ?thesis using rr(6) [OF d] unfolding pending_domains_def by blast
qed

lemma card_pending_mono:
  "reg_rel c c' \<Longrightarrow> distinct (c_enabled_domains c) \<Longrightarrow> card (pending_domains c') \<le> card (pending_domains c)"
  by (rule card_mono) (simp_all add: pending_domains_def finite_used_domains pending_domains_mono [unfolded pending_domains_def])

text \<open>The browser's answer to an \<open>enable\<close> command always resolves it.\<close>

lemma send_await_enable:
  assumes se: "send_enqueue c (enable_cmd d) = (c2, Inr oid)" and ws: "c_websocket c"
  shows "send_await b (send_write c2 oid) oid \<noteq> None"
proof -
  obtain t i where t: "new_transaction (enable_cmd d) = Inr t" and oid: "oid = length (c_heap c)"
    and h: "c_heap c2 = c_heap c @ [t\<lparr>tx_id := Some i\<rparr>]"
    and m: "c_mapper c2 = AList.update i oid (c_mapper c)" and w: "c_websocket c2 = c_websocket c"
    using send_enqueue_entry [OF se] by blast
  obtain l where l: "c_listener c2 = Some l" "l_running l" using send_enqueue_listener [OF se] by blast
  have tx: "tx_state t = Pending" "tx_kind t = CommandTx (\<lambda>_. Returns JNull)"
    using t by (auto simp: new_transaction_def enable_cmd_def)
  let ?c3 = "send_write c2 oid"
  have at: "c_heap ?c3 ! oid = t\<lparr>tx_id := Some i\<rparr>" "oid < length (c_heap ?c3)"
    using h oid by (simp_all add: send_write_def)
  have look: "map_of (c_mapper ?c3) i = Some oid" using m by (simp add: send_write_def update_conv')
  show ?thesis
    using at look l ws w tx
    by (auto simp: send_await_def deliver_def listener_iter_def answer_frame_def handle_response_def
        tx_call_def fut_set_result_def fut_set_exception_def send_result_def Let_def send_write_def)
qed

lemma pending_enable:
  assumes dd: "dd_get (c_handlers c) et = (hs, hm)" and h: "hs \<noteq> []" "is_class et"
    and d: "obj_module et \<notin> set (c_enabled_domains c)" "obj_module et \<notin> set always_enabled"
  shows "obj_module et \<in> pending_domains c"
    and "pending_domains (c\<lparr>c_handlers := hm, c_enabled_domains := c_enabled_domains c @ [obj_module et]\<rparr>) =
           pending_domains c - {obj_module et}"
proof -
  have u: "used_domains (c\<lparr>c_handlers := hm, c_enabled_domains := c_enabled_domains c @ [obj_module et]\<rparr>) =
      used_domains c"
  proof (rule used_domains_cong)
    have "handlers_of (c\<lparr>c_handlers := hm, c_enabled_domains := c_enabled_domains c @ [obj_module et]\<rparr>) =
        handlers_of (c\<lparr>c_handlers := hm\<rparr>)" by (rule handlers_of_cong) simp
    then show "handlers_of (c\<lparr>c_handlers := hm, c_enabled_domains := c_enabled_domains c @ [obj_module et]\<rparr>) =
        handlers_of c" using handlers_of_dd_get(1) [OF dd] by simp
  qed
  show "obj_module et \<in> pending_domains c"
    using h d handlers_of_dd_get(3) [OF dd] by (auto simp: pending_domains_def intro: used_domainsI)
  show "pending_domains (c\<lparr>c_handlers := hm, c_enabled_domains := c_enabled_domains c @ [obj_module et]\<rparr>) =
      pending_domains c - {obj_module et}"
    using u by (auto simp: pending_domains_def)
qed

text \<open>
  Enough fuel: every nested reconciliation runs with one more domain enabled
  that a handler needs, so nesting never goes deeper than the number of such
  domains still pending.
\<close>

lemma reconcile_terminates:
  shows "card (pending_domains c) < n \<Longrightarrow> distinct (c_enabled_domains c) \<Longrightarrow> reg_loop n b ets tmp c \<noteq> None"
    and "card (pending_domains c) < n \<Longrightarrow> distinct (c_enabled_domains c) \<Longrightarrow> register_handlers n b c \<noteq> None"
    and "card (pending_domains c) < n \<Longrightarrow> distinct (c_enabled_domains c) \<Longrightarrow> aopen n b c \<noteq> None"
    and "card (pending_domains c) < n \<Longrightarrow> distinct (c_enabled_domains c) \<Longrightarrow> cmd \<in> range enable_cmd \<Longrightarrow>
           send_update n b cmd c \<noteq> None"
proof (induction n b ets tmp c and n b c and n b c and n b cmd c
    rule: reg_loop_register_handlers_aopen_send_update.induct)
  case (1 n b tmp c)
  then show ?case by simp
next
  case (2 n b et ets tmp c)
  obtain hs hm where dd: "dd_get (c_handlers c) et = (hs, hm)" by fastforce
  note dd' = dd [symmetric]
  let ?d = "obj_module et"
  let ?c1 = "c\<lparr>c_handlers := hm\<rparr>"
  have p1: "pending_domains ?c1 = pending_domains c"
  proof -
    have "used_domains ?c1 = used_domains c" using handlers_of_dd_get(1) [OF dd] by (rule used_domains_cong)
    then show ?thesis by (simp add: pending_domains_def)
  qed
  consider (empty) "hs = []" | (nocls) "hs \<noteq> []" "\<not> is_class et"
    | (seen) "hs \<noteq> []" "is_class et" "?d \<in> set (c_enabled_domains c)"
    | (always) "hs \<noteq> []" "is_class et" "?d \<notin> set (c_enabled_domains c)" "?d \<in> set always_enabled"
    | (enable) "hs \<noteq> []" "is_class et" "?d \<notin> set (c_enabled_domains c)" "?d \<notin> set always_enabled"
    by blast
  then show ?case
  proof cases
    case empty
    let ?c0 = "c\<lparr>c_handlers := AList.delete et hm\<rparr>"
    have "used_domains ?c0 = used_domains c" using handlers_of_dd_get(2) [OF dd empty] by (rule used_domains_cong)
    then have "pending_domains ?c0 = pending_domains c" by (simp add: pending_domains_def)
    with "2.IH"(1) [OF dd' empty] "2.prems" dd empty show ?thesis by simp
  next
    case nocls
    with "2.IH"(2) [OF dd' nocls] "2.prems" dd p1 show ?thesis by simp
  next
    case seen
    have nn: "\<not> \<not> is_class et" using seen(2) by simp
    with "2.IH"(3) [OF dd' seen(1) nn seen(3)] "2.prems" dd p1 seen show ?thesis by simp
  next
    case always
    have nn: "\<not> \<not> is_class et" using always(2) by simp
    with "2.IH"(4) [OF dd' always(1) nn always(3,4)] "2.prems" dd p1 always show ?thesis by simp
  next
    case enable
    have nn: "\<not> \<not> is_class et" using enable(2) by simp
    let ?c2 = "c\<lparr>c_handlers := hm, c_enabled_domains := c_enabled_domains c @ [?d]\<rparr>"
    note pe = pending_enable [OF dd enable]
    have "card (pending_domains c) > 0"
      using pe(1) by (auto simp: card_gt_0_iff pending_domains_def finite_used_domains)
    then obtain m where n: "n = Suc m" and cm: "card (pending_domains ?c2) < m"
      using "2.prems"(1) pe by (cases n) (auto simp: pending_domains_def finite_used_domains)
    have d2: "distinct (c_enabled_domains ?c2)" using "2.prems"(2) enable(3) by simp
    obtain c2 r where su: "send_update m b (enable_cmd ?d) ?c2 = Some (c2, r)"
      using "2.IH"(5) [OF dd' enable(1) nn enable(3,4) n cm d2] by auto
    have r2: "reg_rel ?c2 c2" by (rule reconcile_rel(4) [OF su])
    show ?thesis
    proof (cases r)
      case None
      have rc: "reg_rel c c2" using reg_rel_trans [OF reg_rel_enable [OF dd enable(1,2,3)] r2] .
      have "card (pending_domains c2) < n" using card_pending_mono [OF rc "2.prems"(2)] "2.prems"(1) by simp
      moreover have "distinct (c_enabled_domains c2)" using reg_relD(5) [OF rc "2.prems"(2)] .
      ultimately show ?thesis using "2.IH"(6) [OF dd' enable(1) nn enable(3,4) n su refl None] dd enable n su None by simp
    next
      case (Some x)
      let ?c3 = "c2\<lparr>c_enabled_domains := remove1 ?d (c_enabled_domains c2)\<rparr>"
      have rc: "reg_rel c ?c3" by (rule reg_rel_enable_failed [OF dd enable(1,2,3) r2])
      have "card (pending_domains ?c3) < n" using card_pending_mono [OF rc "2.prems"(2)] "2.prems"(1) by simp
      moreover have "distinct (c_enabled_domains ?c3)" using reg_relD(5) [OF rc "2.prems"(2)] .
      ultimately show ?thesis using "2.IH"(7) [OF dd' enable(1) nn enable(3,4) n su refl Some] dd enable n su Some by simp
    qed
  qed
next
  case (3 n b c)
  then show ?case by (auto split: option.splits)
next
  case (4 n b c)
  obtain c1 err where ac: "aopen_connect c (br_connects b) = (c1, err)" by fastforce
  have f: "c_handlers c1 = c_handlers c" "c_enabled_domains c1 = c_enabled_domains c"
    using aopen_connect_frame [OF ac] by simp_all
  then have "pending_domains c1 = pending_domains c" by (simp add: pending_domains_def used_domains_def handlers_of_def)
  with "4.IH" [OF ac [symmetric]] "4.prems" ac f show ?case by (cases err) simp_all
next
  case (5 n b cmd c)
  obtain c1 err where ao: "aopen n b c = Some (c1, err)" using "5.IH" "5.prems" by fastforce
  obtain d where cmd: "cmd = enable_cmd d" using "5.prems"(3) by blast
  show ?case
  proof (cases "err = None \<and> c_websocket c1")
    case False
    then show ?thesis using ao by (auto split: option.splits)
  next
    case True
    obtain c2 res where se: "send_enqueue c1 cmd = (c2, res)" by fastforce
    show ?thesis
    proof (cases res)
      case (Inl x)
      then show ?thesis using ao True se by simp
    next
      case (Inr oid)
      have "send_await b (send_write c2 oid) oid \<noteq> None"
        using send_await_enable [of c1 d c2 oid b] se Inr cmd True by simp
      then show ?thesis using ao True se Inr by simp
    qed
  qed
qed

section \<open>Completeness\<close>

lemma sent_methods_trans:
  "c_sent c2 = c_sent c1 @ f1 \<Longrightarrow> c_sent c3 = c_sent c2 @ f2 \<Longrightarrow>
     sent_methods c1 c3 = sent_methods c1 c2 @ sent_methods c2 c3"
  by (simp add: sent_methods_def)

lemma send_await_accepted:
  assumes se: "send_enqueue c (enable_cmd d) = (c2, Inr oid)" and ws: "c_websocket c"
    and acc: "br_accepts b (JStr (d @ ''.enable''))"
  shows "\<exists>c'. send_await b (send_write c2 oid) oid = Some (c', None) \<and>
           sent_methods c c' = [enable_method d] \<and> c' = deliver (send_write c2 oid)
             (answer_frame b (the (tx_id (c_heap c2 ! oid))) (tx_method (c_heap c2 ! oid)))"
proof -
  obtain t i where t: "new_transaction (enable_cmd d) = Inr t" and oid: "oid = length (c_heap c)"
    and h: "c_heap c2 = c_heap c @ [t\<lparr>tx_id := Some i\<rparr>]"
    and m: "c_mapper c2 = AList.update i oid (c_mapper c)" and w: "c_websocket c2 = c_websocket c"
    and s: "c_sent c2 = c_sent c"
    using send_enqueue_entry [OF se] by blast
  obtain l where l: "c_listener c2 = Some l" "l_running l" using send_enqueue_listener [OF se] by blast
  have tx: "tx_state t = Pending" "tx_kind t = CommandTx (\<lambda>_. Returns JNull)"
    "tx_method t = JStr (d @ ''.enable'')" "tx_params t = JObj []"
    using t by (auto simp: new_transaction_def enable_cmd_def)
  let ?c3 = "send_write c2 oid"
  have at: "c_heap ?c3 ! oid = t\<lparr>tx_id := Some i\<rparr>" "oid < length (c_heap ?c3)"
    using h oid by (simp_all add: send_write_def)
  have look: "map_of (c_mapper ?c3) i = Some oid" using m by (simp add: send_write_def update_conv')
  have "sent_methods c ?c3 = [enable_method d]"
    using s h oid tx by (simp add: sent_methods_def send_write_def tx_message_def enable_method_def)
  then show ?thesis
    using at look l ws w tx acc h oid
    by (auto simp: send_await_def deliver_def listener_iter_def answer_frame_def handle_response_def
        tx_call_def fut_set_result_def send_result_def Let_def send_write_def sent_methods_def)
qed

lemma grows_trans:
  assumes g1: "grows c1 c2 ds1" and g2: "grows c2 c3 ds2"
    and s1: "c_sent c2 = c_sent c1 @ f1" and s2: "c_sent c3 = c_sent c2 @ f2"
  shows "grows c1 c3 (ds1 @ ds2)"
  using g1 g2 sent_methods_trans [OF s1 s2] unfolding grows_def by auto

lemma grows_same:
  "c_sent c1 = c_sent c \<Longrightarrow> c_enabled_domains c1 = c_enabled_domains c \<Longrightarrow> grows c1 c' ds \<Longrightarrow> grows c c' ds"
  by (simp add: grows_def sent_methods_def)

lemma keeps_used:
  "reg_rel c c' \<Longrightarrow> distinct (c_enabled_domains c) \<Longrightarrow> d \<in> set (c_enabled_domains c) \<Longrightarrow>
     d \<in> used_domains c \<Longrightarrow> d \<in> set (c_enabled_domains c')"
  using reg_relD(6) by blast

lemma rec_ok_rel:
  assumes "rec_ok b c" "reg_rel c c'"
  shows "rec_ok b c'"
proof -
  note rr = reg_relD [OF assms(2)]
  have "used_domains c' = used_domains c" using rr(1) by (rule used_domains_cong)
  with assms rr(3,5,7) show ?thesis unfolding rec_ok_def by blast
qed

lemma reconcile_complete:
  shows "reg_loop n b ets tmp c = Some (c', tmp') \<Longrightarrow> rec_ok b c \<Longrightarrow>
           (\<forall>et \<in> set ets. handlers_of c et \<noteq> [] \<longrightarrow> is_class et \<longrightarrow> obj_module et \<notin> set always_enabled \<longrightarrow>
              obj_module et \<in> set (c_enabled_domains c')) \<and> (\<exists>ds. grows c c' ds)"
    and "register_handlers n b c = Some (c', e) \<Longrightarrow> rec_ok b c \<Longrightarrow>
           e = None \<and> used_domains c - set always_enabled \<subseteq> set (c_enabled_domains c') \<and> (\<exists>ds. grows c c' ds)"
    and "aopen n b c = Some (c', e) \<Longrightarrow> rec_ok b c \<Longrightarrow>
           e = None \<and> used_domains c - set always_enabled \<subseteq> set (c_enabled_domains c') \<and> (\<exists>ds. grows c c' ds)"
    and "send_update n b cmd c = Some (c', e) \<Longrightarrow> rec_ok b c \<Longrightarrow> cmd = enable_cmd d \<Longrightarrow>
           e = None \<and> (\<exists>ds. c_enabled_domains c' = c_enabled_domains c @ ds \<and>
              set ds \<inter> set always_enabled = {} \<and> mset (sent_methods c c') = mset (map enable_method (d # ds)))"
proof (induction n b ets tmp c and n b c and n b c and n b cmd c arbitrary: c' tmp' and c' e and c' e and c' e d
    rule: reg_loop_register_handlers_aopen_send_update.induct)
  case (1 n b tmp c)
  then show ?case by (auto simp: grows_def sent_methods_def)
next
  case (2 n b et ets tmp c)
  obtain hs hm where dd: "dd_get (c_handlers c) et = (hs, hm)" by fastforce
  note dd' = dd [symmetric]
  have hs: "hs = handlers_of c et" by (rule handlers_of_dd_get(3) [OF dd])
  have rc: "reg_rel c c'" using reconcile_rel(1) [OF "2.prems"(1)] by simp
  have dc: "distinct (c_enabled_domains c)" using "2.prems"(2) by (simp add: rec_ok_def)
  let ?d = "obj_module et"
  let ?c1 = "c\<lparr>c_handlers := hm\<rparr>"
  have r1: "reg_rel c ?c1"
    by (rule reg_rel_same) (simp_all add: handlers_of_dd_get(1) [OF dd] mapper_inv_def)
  have ok1: "rec_ok b ?c1" using rec_ok_rel [OF "2.prems"(2) r1] .
  have h1: "handlers_of ?c1 = handlers_of c" using reg_relD(1) [OF r1] .
  have head_kept: "?d \<in> set (c_enabled_domains c')" if "?d \<in> set (c_enabled_domains c)" "hs \<noteq> []" "is_class et"
    using keeps_used [OF rc dc that(1)] that(2,3) hs by (simp add: used_domainsI)
  consider (empty) "hs = []" | (nocls) "hs \<noteq> []" "\<not> is_class et"
    | (seen) "hs \<noteq> []" "is_class et" "?d \<in> set (c_enabled_domains c)"
    | (always) "hs \<noteq> []" "is_class et" "?d \<notin> set (c_enabled_domains c)" "?d \<in> set always_enabled"
    | (enable) "hs \<noteq> []" "is_class et" "?d \<notin> set (c_enabled_domains c)" "?d \<notin> set always_enabled"
    by blast
  then show ?case
  proof cases
    case empty
    let ?c0 = "c\<lparr>c_handlers := AList.delete et hm\<rparr>"
    have r0: "reg_rel c ?c0"
      by (rule reg_rel_same) (simp_all add: handlers_of_dd_get(2) [OF dd empty] mapper_inv_def)
    have run: "reg_loop n b ets tmp ?c0 = Some (c', tmp')" using "2.prems"(1) dd empty by simp
    note ih = "2.IH"(1) [OF dd' empty run rec_ok_rel [OF "2.prems"(2) r0]]
    have "handlers_of ?c0 = handlers_of c" using reg_relD(1) [OF r0] .
    then show ?thesis using ih empty hs grows_same [of ?c0 c c'] by auto
  next
    case nocls
    have run: "reg_loop n b ets tmp ?c1 = Some (c', tmp')" using "2.prems"(1) dd nocls by simp
    note ih = "2.IH"(2) [OF dd' nocls run ok1]
    show ?thesis using ih nocls h1 grows_same [of ?c1 c c'] by auto
  next
    case seen
    have nn: "\<not> \<not> is_class et" using seen(2) by simp
    have run: "reg_loop n b ets (remove1 ?d tmp) ?c1 = Some (c', tmp')" using "2.prems"(1) dd seen by simp
    note ih = "2.IH"(3) [OF dd' seen(1) nn seen(3) run ok1]
    show ?thesis using ih seen h1 head_kept grows_same [of ?c1 c c'] by auto
  next
    case always
    have nn: "\<not> \<not> is_class et" using always(2) by simp
    have run: "reg_loop n b ets tmp ?c1 = Some (c', tmp')" using "2.prems"(1) dd always by simp
    note ih = "2.IH"(4) [OF dd' always(1) nn always(3,4) run ok1]
    show ?thesis using ih always h1 grows_same [of ?c1 c c'] by auto
  next
    case enable
    have nn: "\<not> \<not> is_class et" using enable(2) by simp
    let ?c2 = "c\<lparr>c_handlers := hm, c_enabled_domains := c_enabled_domains c @ [?d]\<rparr>"
    obtain m where n: "n = Suc m" using "2.prems"(1) dd enable by (cases n) simp_all
    obtain c2 r where su: "send_update m b (enable_cmd ?d) ?c2 = Some (c2, r)"
      using "2.prems"(1) dd enable n by (auto split: option.splits)
    have re: "reg_rel c ?c2" by (rule reg_rel_enable [OF dd enable(1,2,3)])
    have ok2: "rec_ok b ?c2"
    proof -
      have "?d \<in> used_domains c" using enable(1,2) hs by (simp add: used_domainsI)
      moreover have "used_domains ?c2 = used_domains c" using reg_relD(1) [OF re] by (rule used_domains_cong)
      ultimately show ?thesis using "2.prems"(2) enable(3) by (auto simp: rec_ok_def)
    qed
    note sub = "2.IH"(5) [OF dd' enable(1) nn enable(3,4) n su ok2 refl]
    then have r: "r = None" by simp
    obtain ds where ds: "c_enabled_domains c2 = c_enabled_domains ?c2 @ ds"
      "set ds \<inter> set always_enabled = {}" "mset (sent_methods ?c2 c2) = mset (map enable_method (?d # ds))"
      using sub by blast
    have g2: "grows c c2 (?d # ds)"
      using ds enable(4) by (simp add: grows_def sent_methods_def)
    have r2: "reg_rel ?c2 c2" by (rule reconcile_rel(4) [OF su])
    have rc2: "reg_rel c c2" by (rule reg_rel_trans [OF re r2])
    have run: "reg_loop n b ets tmp c2 = Some (c', tmp')" using "2.prems"(1) dd enable n su r by simp
    note ih = "2.IH"(6) [OF dd' enable(1) nn enable(3,4) n su refl r run rec_ok_rel [OF "2.prems"(2) rc2]]
    have rc2': "reg_rel c2 c'" using reconcile_rel(1) [OF run] by simp
    have "?d \<in> set (c_enabled_domains c')"
    proof (rule keeps_used [OF rc2'])
      show "distinct (c_enabled_domains c2)" using reg_relD(5) [OF rc2 dc] .
      show "?d \<in> set (c_enabled_domains c2)" using ds(1) by simp
      have "used_domains c2 = used_domains c" using reg_relD(1) [OF rc2] by (rule used_domains_cong)
      then show "?d \<in> used_domains c2" using enable(1,2) hs by (simp add: used_domainsI)
    qed
    moreover obtain ds' where "grows c2 c' ds'" using ih by blast
    moreover obtain f1 f2 where "c_sent c2 = c_sent c @ f1" "c_sent c' = c_sent c2 @ f2"
      using reg_relD(2) [OF rc2] reg_relD(2) [OF rc2'] by blast
    ultimately have "?d \<in> set (c_enabled_domains c')" "grows c c' ((?d # ds) @ ds')"
      using grows_trans [OF g2] by blast+
    moreover have "handlers_of c2 = handlers_of c" using reg_relD(1) [OF rc2] .
    ultimately show ?thesis using ih by auto
  qed
next
  case (3 n b c)
  obtain c1 tmp' where loop: "reg_loop n b (map fst (c_handlers c)) (c_enabled_domains c) c = Some (c1, tmp')"
    and ru: "remove_unused tmp' c1 = (c', e)"
    using "3.prems"(1) by (auto split: option.splits)
  note ih = "3.IH" [OF loop "3.prems"(2)]
  have t: "tmp_ok c (map fst (c_handlers c)) (c_enabled_domains c) tmp'"
    using reconcile_rel(1) [OF loop] by simp
  have dc: "distinct (c_enabled_domains c)" "set (c_enabled_domains c) \<subseteq> used_domains c"
    using "3.prems"(2) by (simp_all add: rec_ok_def)
  have "x \<notin> set tmp'" for x
  proof
    assume x: "x \<in> set tmp'"
    then have "x \<in> used_domains c" using tmp_okD(1) [OF t] dc(2) by blast
    then obtain k where k: "handlers_of c k \<noteq> []" "is_class k" "obj_module k = x"
      by (auto simp: used_domains_def)
    have "x \<in> set (c_enabled_domains c)" using x tmp_okD(1) [OF t] by blast
    with tmp_okD(4) [OF t dc(1) dc(1) handlers_of_key [OF k(1)] k(1,2)] k(3) x show False by simp
  qed
  then have "tmp' = []" by (cases tmp') auto
  with ru have "c' = c1" "e = None" by simp_all
  moreover have "used_domains c - set always_enabled \<subseteq> set (c_enabled_domains c1)"
  proof
    fix x assume "x \<in> used_domains c - set always_enabled"
    then obtain k where "handlers_of c k \<noteq> []" "is_class k" "obj_module k = x" "x \<notin> set always_enabled"
      by (auto simp: used_domains_def)
    then show "x \<in> set (c_enabled_domains c1)" using ih handlers_of_key by blast
  qed
  ultimately show ?case using ih by blast
next
  case (4 n b c)
  have ws: "c_websocket c" using "4.prems"(2) by (simp add: rec_ok_def)
  obtain c1 err where ac: "aopen_connect c (br_connects b) = (c1, err)" by fastforce
  have f: "c_handlers c1 = c_handlers c" "c_enabled_domains c1 = c_enabled_domains c" "c_sent c1 = c_sent c"
    "err = None" "c_websocket c1"
    using aopen_connect_frame [OF ac] ws by simp_all
  have r1: "reg_rel c c1" by (rule reg_rel_aopen_connect [OF ac])
  have u: "used_domains c1 = used_domains c" using reg_relD(1) [OF r1] by (rule used_domains_cong)
  have run: "register_handlers n b c1 = Some (c', e)" using "4.prems"(1) ac f(4) by simp
  note ih = "4.IH" [OF ac [symmetric] f(4) run rec_ok_rel [OF "4.prems"(2) r1]]
  show ?case using ih u grows_same [of c1 c c'] f by auto
next
  case (5 n b cmd c)
  obtain c1 err where ao: "aopen n b c = Some (c1, err)" using "5.prems"(1) by (auto split: option.splits)
  note ih = "5.IH" [OF ao "5.prems"(2)]
  have r1: "reg_rel c c1" by (rule reconcile_rel(3) [OF ao])
  have ws: "c_websocket c1" using reg_relD(3) [OF r1] "5.prems"(2) by (simp add: rec_ok_def)
  obtain t where t: "new_transaction cmd = Inr t"
    using "5.prems"(3) by (simp add: new_transaction_def enable_cmd_def)
  obtain c2 oid where se: "send_enqueue c1 cmd = (c2, Inr oid)"
    using t by (simp add: send_enqueue_def Let_def split: if_splits)
  have acc: "br_accepts b (JStr (d @ ''.enable''))" using "5.prems"(2) by (simp add: rec_ok_def)
  obtain c3 where aw: "send_await b (send_write c2 oid) oid = Some (c3, None)"
    and sm: "sent_methods c1 c3 = [enable_method d]" and c3: "c3 = deliver (send_write c2 oid)
             (answer_frame b (the (tx_id (c_heap c2 ! oid))) (tx_method (c_heap c2 ! oid)))"
    using send_await_accepted [OF se [unfolded "5.prems"(3)] ws acc] by blast
  have "c' = c3" "e = None" using "5.prems"(1) ao ih ws se aw by simp_all
  moreover obtain ds where g: "grows c c1 ds" using ih by blast
  moreover have "c_enabled_domains c3 = c_enabled_domains c1"
    using c3 send_enqueue_frame [OF se] by simp
  moreover have "sent_methods c c3 = sent_methods c c1 @ sent_methods c1 c3"
  proof (rule sent_methods_trans)
    show "c_sent c1 = c_sent c @ drop (length (c_sent c)) (c_sent c1)"
      using reg_relD(2) [OF r1] by auto
    show "c_sent c3 = c_sent c1 @ drop (length (c_sent c1)) (c_sent c3)"
      using c3 send_enqueue_frame [OF se] by simp
  qed
  ultimately show ?case using sm unfolding grows_def by auto
qed

section \<open>The whole send\<close>

lemma send_rel:
  assumes s: "send n b cmd c = Some (c', r)"
  shows "reg_rel c c'"
proof -
  obtain c1 e1 where ao: "aopen n b c = Some (c1, e1)"
    using s by (cases "aopen n b c") (auto simp: send_def simp del: aopen.simps)
  note r1 = reconcile_rel(3) [OF ao]
  show ?thesis
  proof (cases "e1 = None \<and> c_websocket c1")
    case False
    then have "c' = c1" using s ao by (auto simp: send_def simp del: aopen.simps split: option.splits)
    with r1 show ?thesis by simp
  next
    case True
    obtain c2 res where se: "send_enqueue c1 cmd = (c2, res)" by fastforce
    note r2 = reg_rel_trans [OF r1 reg_rel_send_enqueue [OF se]]
    show ?thesis
    proof (cases res)
      case (Inl x)
      then have "c' = c2" using s ao True se by (simp add: send_def del: aopen.simps)
      with r2 show ?thesis by simp
    next
      case (Inr oid)
      obtain c3 e3 where rh: "register_handlers n b c2 = Some (c3, e3)"
        using s ao True se Inr
        by (cases "register_handlers n b c2") (auto simp: send_def simp del: aopen.simps register_handlers.simps)
      note r3 = reg_rel_trans [OF r2 reconcile_rel(2) [OF rh, THEN conjunct1]]
      show ?thesis
      proof (cases e3)
        case None
        then have "c' = send_write c3 oid" using s ao True se Inr rh
          by (simp add: send_def del: aopen.simps register_handlers.simps)
        with reg_rel_trans [OF r3 reg_rel_send_write] show ?thesis by simp
      next
        case (Some x)
        then have "c' = c3" using s ao True se Inr rh
          by (simp add: send_def del: aopen.simps register_handlers.simps)
        with r3 show ?thesis by simp
      qed
    qed
  qed
qed

lemma card_pending_le: "card (pending_domains c) \<le> length (c_handlers c)"
proof -
  have "pending_domains c \<subseteq> obj_module ` set (map fst (c_handlers c))"
    by (auto simp: pending_domains_def used_domains_def dest: handlers_of_key)
  then have "card (pending_domains c) \<le> card (obj_module ` set (map fst (c_handlers c)))"
    by (rule card_mono [rotated]) simp
  also have "\<dots> \<le> length (c_handlers c)"
    using card_image_le [of "set (map fst (c_handlers c))" obj_module] card_length [of "map fst (c_handlers c)"]
    by simp
  finally show ?thesis .
qed

lemma send_terminates:
  assumes d: "distinct (c_enabled_domains c)" and n: "card (pending_domains c) < n"
  shows "send n b cmd c \<noteq> None"
proof -
  obtain c1 e where ao: "aopen n b c = Some (c1, e)"
    using reconcile_terminates(3) [OF n d] by (metis not_None_eq surj_pair)
  have r1: "reg_rel c c1" by (rule reconcile_rel(3) [OF ao])
  have "register_handlers n b c2 \<noteq> None" if se: "send_enqueue c1 cmd = (c2, r)" for c2 r
  proof (rule reconcile_terminates(2))
    have r2: "reg_rel c c2" by (rule reg_rel_trans [OF r1 reg_rel_send_enqueue [OF se]])
    show "card (pending_domains c2) < n" using card_pending_mono [OF r2 d] n by simp
    show "distinct (c_enabled_domains c2)" by (rule reg_relD(5) [OF r2 d])
  qed
  then show ?thesis using ao
    by (auto simp: send_def simp del: aopen.simps register_handlers.simps split: option.splits sum.splits prod.splits)
qed

text \<open>Without handlers and enabled domains, reconciliation changes nothing.\<close>

lemma register_plain:
  "c_handlers c = [] \<Longrightarrow> c_enabled_domains c = [] \<Longrightarrow> register_handlers n b c = Some (c, None)"
  by simp

lemma aopen_plain:
  assumes "c_handlers c = []" "c_enabled_domains c = []"
  shows "aopen n b c = Some (aopen_connect c (br_connects b))"
proof -
  obtain c1 e where ac: "aopen_connect c (br_connects b) = (c1, e)" by fastforce
  then have "c_handlers c1 = []" "c_enabled_domains c1 = []"
    using aopen_connect_frame [OF ac] assms by simp_all
  with ac show ?thesis by (cases e) (simp_all del: register_handlers.simps add: register_plain)
qed

lemma send_plain:
  assumes "c_handlers c = []" "c_enabled_domains c = []"
  shows "send n b cmd c =
    (case aopen_connect c (br_connects b) of
       (c1, Some e) \<Rightarrow> Some (c1, SendRaised e)
     | (c1, None) \<Rightarrow>
         (if \<not> c_websocket c1 then Some (c1, SendNoSocket)
          else case send_enqueue c1 cmd of
            (c2, Inl e) \<Rightarrow> Some (c2, SendRaised e)
          | (c2, Inr oid) \<Rightarrow> Some (send_write c2 oid, SendAwaiting oid)))"
proof -
  obtain c1 e where ac: "aopen_connect c (br_connects b) = (c1, e)" by fastforce
  have f1: "c_handlers c1 = []" "c_enabled_domains c1 = []"
    using aopen_connect_frame [OF ac] assms by simp_all
  have "register_handlers n b c2 = Some (c2, None)" if "send_enqueue c1 cmd = (c2, r)" for c2 r
    using send_enqueue_frame [OF that] f1 by (simp add: register_plain del: register_handlers.simps)
  then show ?thesis using ac assms
    by (auto simp: send_def aopen_plain simp del: aopen.simps register_handlers.simps
        split: option.splits sum.splits prod.splits)
qed

text \<open>When every class key's domain is already listed as enabled, the loop sends nothing.\<close>

lemma reg_loop_all_enabled:
  assumes "\<forall>et \<in> set ets. is_class et \<longrightarrow> obj_module et \<in> set (c_enabled_domains c)"
  shows "\<exists>c' tmp'. reg_loop n b ets tmp c = Some (c', tmp') \<and> c_sent c' = c_sent c \<and>
           c_enabled_domains c' = c_enabled_domains c \<and> c_websocket c' = c_websocket c"
  using assms
proof (induction ets arbitrary: tmp c)
  case Nil then show ?case by simp
next
  case (Cons et ets)
  obtain hs hm where d: "dd_get (c_handlers c) et = (hs, hm)" by fastforce
  have ih: "\<And>tmp c'. c_enabled_domains c' = c_enabled_domains c \<Longrightarrow> c_sent c' = c_sent c \<Longrightarrow>
      c_websocket c' = c_websocket c \<Longrightarrow>
      \<exists>c'' tmp'. reg_loop n b ets tmp c' = Some (c'', tmp') \<and> c_sent c'' = c_sent c \<and>
        c_enabled_domains c'' = c_enabled_domains c \<and> c_websocket c'' = c_websocket c"
    using Cons.IH Cons.prems by (metis list.set_intros(2))
  show ?case using Cons.prems d ih
    by (auto simp del: register_handlers.simps aopen.simps send_update.simps)
qed

section \<open>Claims\<close>

lemma used_domains_list:
  "used_domains c = obj_module ` set (filter (\<lambda>k. handlers_of c k \<noteq> [] \<and> is_class k) (map fst (c_handlers c)))"
  unfolding used_domains_def by (force dest: handlers_of_key)

lemma reg_sample_pending: "pending_domains reg_sample = {''Network'', ''Page''}"
  by (auto simp: pending_domains_def used_domains_list reg_sample_def new_connection_def
      handlers_of_eq ev_request_def ev_response_def ev_load_def is_class_def always_enabled_def)

text \<open>
  C7: termination of the reconciliation. \<open>_register_handlers\<close> recurses through
  \<open>send(enable, _is_update=True)\<close> and the \<open>aopen\<close> that call runs; it returns
  (normally or with an exception) whenever the list of enabled domains has no
  duplicate and the fuel exceeds the number of domains still to enable.
\<close>

theorem register_handlers_terminates:
  assumes "distinct (c_enabled_domains c)" and "card (pending_domains c) < n"
  shows "\<exists>r. register_handlers n b c = Some r"
  using reconcile_terminates(2) [OF assms(2,1)] by blast

theorem register_handlers_terminates_witness:
  "distinct (c_enabled_domains reg_sample) \<and> card (pending_domains reg_sample) < 3 \<and>
   (\<exists>r. register_handlers 3 accepting reg_sample = Some r)"
proof -
  have d: "distinct (c_enabled_domains reg_sample)" by (simp add: reg_sample_def new_connection_def)
  have c: "card (pending_domains reg_sample) < 3" by (simp add: reg_sample_pending)
  show ?thesis using register_handlers_terminates [OF d c] d c by blast
qed

text \<open>
  C6: the abstract contract of reconciliation (spec \<section>4.5): with a browser that
  accepts every \<open>enable\<close> and no stale entry, the list of enabled domains grows by
  exactly the domains some handler needs that were neither enabled nor on by
  default, each once, and one \<open>enable\<close> frame is written per such domain and no
  other frame.
\<close>

theorem register_handlers_enables_each_once:
  assumes ok: "rec_ok b c" and fuel: "card (pending_domains c) < n"
  shows "\<exists>c' ds. register_handlers n b c = Some (c', None) \<and>
           c_enabled_domains c' = c_enabled_domains c @ ds \<and> distinct ds \<and> set ds = pending_domains c \<and>
           mset (sent_methods c c') = mset (map enable_method ds)"
proof -
  have dc: "distinct (c_enabled_domains c)" using ok by (simp add: rec_ok_def)
  obtain c' e where run: "register_handlers n b c = Some (c', e)"
    using reconcile_terminates(2) [OF fuel dc] by (metis not_None_eq surj_pair)
  note comp = reconcile_complete(2) [OF run ok]
  obtain ds where g: "grows c c' ds" using comp by blast
  have rr: "reg_rel c c'" using reconcile_rel(2) [OF run] by simp
  have e: "c_enabled_domains c' = c_enabled_domains c @ ds" "set ds \<inter> set always_enabled = {}"
    "mset (sent_methods c c') = mset (map enable_method ds)"
    using g by (simp_all add: grows_def)
  have d': "distinct (c_enabled_domains c @ ds)" using reg_relD(5) [OF rr dc] e(1) by simp
  have "set ds \<subseteq> pending_domains c"
    using d' e(1,2) reg_relD(7) [OF rr dc] by (auto simp: pending_domains_def)
  moreover have "pending_domains c \<subseteq> set ds"
    using comp e(1) by (auto simp: pending_domains_def)
  ultimately show ?thesis using run comp e d' by auto
qed

theorem register_handlers_enables_each_once_witness:
  "\<exists>c' ds. register_handlers 3 accepting reg_sample = Some (c', None) \<and>
     c_enabled_domains c' = [] @ ds \<and> distinct ds \<and> set ds = {''Network'', ''Page''}"
proof -
  have ok: "rec_ok accepting reg_sample"
    by (simp add: rec_ok_def reg_sample_def new_connection_def accepting_def)
  have "card (pending_domains reg_sample) < 3" by (simp add: reg_sample_pending)
  from register_handlers_enables_each_once [OF ok this] obtain c' ds
    where r: "register_handlers 3 accepting reg_sample = Some (c', None)"
      and e: "c_enabled_domains c' = c_enabled_domains reg_sample @ ds" "distinct ds"
        "set ds = pending_domains reg_sample"
    by blast
  have e0: "c_enabled_domains reg_sample = []" by (simp add: reg_sample_def new_connection_def)
  show ?thesis using r e unfolding e0 reg_sample_pending by blast
qed

text \<open>
  C19: whatever the browser answers, a reconciliation that returns normally leaves
  no duplicate and no domain that no handler needs among the enabled domains,
  and keeps every enabled domain that one needs.
\<close>

theorem register_handlers_sound:
  assumes "register_handlers n b c = Some (c', None)" and "distinct (c_enabled_domains c)"
  shows "distinct (c_enabled_domains c') \<and> set (c_enabled_domains c') \<subseteq> used_domains c \<and>
         set (c_enabled_domains c) \<inter> used_domains c \<subseteq> set (c_enabled_domains c')"
  using reconcile_rel(2) [OF assms(1)] reg_relD(5,6) [of c c'] assms(2) by blast

theorem register_handlers_sound_witness:
  "\<exists>c'. register_handlers 3 accepting reg_sample = Some (c', None) \<and>
     distinct (c_enabled_domains c') \<and> set (c_enabled_domains c') \<subseteq> used_domains reg_sample"
proof -
  have ok: "rec_ok accepting reg_sample"
    by (simp add: rec_ok_def reg_sample_def new_connection_def accepting_def)
  have d: "distinct (c_enabled_domains reg_sample)" by (simp add: reg_sample_def new_connection_def)
  have "card (pending_domains reg_sample) < 3" by (simp add: reg_sample_pending)
  then obtain c' e where run: "register_handlers 3 accepting reg_sample = Some (c', e)"
    using reconcile_terminates(2) [OF _ d] by (metis not_None_eq surj_pair)
  then have e: "e = None" using reconcile_complete(2) [OF run ok] by simp
  show ?thesis using register_handlers_sound [OF run [unfolded e] d] run e by blast
qed

text \<open>
  C20: a stale entry in \<open>enabled_domains\<close> (a domain whose handlers were removed)
  together with a domain to enable makes \<open>send\<close> raise \<open>ValueError\<close> before the
  command is written: the nested reconciliation run by the \<open>enable\<close> command
  removes the stale entry, and the outer one's last loop then calls
  \<open>list.remove\<close> on it again. The spec requires reconciliation never to throw out
  of \<open>send\<close>.
\<close>

theorem stale_domain_send_raises:
  assumes "c_websocket c" and "c_listener c = Some l" "l_running l" and "c_mapper c = []"
    and "c_handlers c = [(et, hs)]" "hs \<noteq> []" "is_class et" "obj_module et \<notin> set always_enabled"
    and "c_enabled_domains c = [s]" "s \<noteq> obj_module et"
    and "br_connects b" "br_accepts b (JStr (obj_module et @ ''.enable''))"
    and "new_transaction cmd = Inr t"
  shows "\<exists>c'. send (Suc n) b cmd c = Some (c', SendRaised ValueError) \<and>
           map (\<lambda>f. map_of f ''method'') (drop (length (c_sent c)) (c_sent c')) =
             [Some (JStr (obj_module et @ ''.enable''))]"
  using assms
  by (simp add: send_def aopen_connect_def ensure_listener_def dd_get_def enable_cmd_def send_enqueue_def
      new_transaction_def send_write_def send_await_def deliver_def listener_iter_def answer_frame_def
      handle_response_def tx_call_def fut_set_result_def send_result_def tx_message_def new_listener_def)

lemma stale_domain_send_raises_witness:
  "c_enabled_domains stale_sample = [''Fetch''] \<and> c_handlers stale_sample = [(ev_request, [Handler ''a'' True])] \<and>
   (\<exists>c'. send 3 accepting sample_cmd stale_sample = Some (c', SendRaised ValueError) \<and>
      map (\<lambda>f. map_of f ''method'') (drop (length (c_sent stale_sample)) (c_sent c')) =
        [Some (JStr (obj_module ev_request @ ''.enable''))])"
proof -
  have h: "c_websocket stale_sample" "c_listener stale_sample = Some new_listener" "l_running new_listener"
    "c_mapper stale_sample = []" "c_handlers stale_sample = [(ev_request, [Handler ''a'' True])]"
    "[Handler ''a'' True] \<noteq> []" "is_class ev_request" "obj_module ev_request \<notin> set always_enabled"
    "c_enabled_domains stale_sample = [''Fetch'']" "''Fetch'' \<noteq> obj_module ev_request"
    "br_connects accepting" "br_accepts accepting (JStr (obj_module ev_request @ ''.enable''))"
    "new_transaction sample_cmd = Inr \<lparr>tx_method = JStr ''Foo.bar'', tx_params = JObj [(''x'', JInt 1)], tx_id = None,
        tx_kind = CommandTx Returns, tx_state = Pending\<rparr>"
    by (simp_all add: stale_sample_def new_connection_def new_listener_def ev_request_def is_class_def
        always_enabled_def accepting_def new_transaction_def sample_cmd_def)
  show ?thesis using stale_domain_send_raises[OF h, of 2] h(5,9) by (simp add: numeral_3_eq_3)
qed

end
