(* ===== verification/UrlParse.thy ===== *)
theory UrlParse
  imports Prelude
begin

text \<open>
  The part of Python's \<open>urllib.parse\<close> (CPython 3.11) that \<open>ProxyConfig.parse\<close>
  and \<open>CookieManager.get_domain\<close> rely on: \<open>urlsplit\<close>, \<open>urlparse\<close> and the
  \<open>hostname\<close>, \<open>port\<close>, \<open>username\<close> and \<open>password\<close> attributes of their result,
  with the validation of a bracketed host by \<open>ipaddress\<close>. Strings are byte
  strings: \<open>str.lower\<close> and the character classes are those of ASCII, and the
  NFKC check \<open>_checknetloc\<close>, which only concerns non-ASCII network locations,
  is not modelled.
\<close>

section \<open>String methods\<close>

text \<open>\<open>s.partition(sep)\<close> for a one-character separator.\<close>

definition py_partition :: "char \<Rightarrow> string \<Rightarrow> string \<times> bool \<times> string" where
  "py_partition sep s =
     (takeWhile (\<lambda>c. c \<noteq> sep) s, sep \<in> set s, drop 1 (dropWhile (\<lambda>c. c \<noteq> sep) s))"

text \<open>\<open>s.rpartition(sep)\<close>: not found gives \<open>('', '', s)\<close>.\<close>

definition py_rpartition :: "char \<Rightarrow> string \<Rightarrow> string \<times> bool \<times> string" where
  "py_rpartition sep s =
     (if sep \<in> set s
      then (rev (drop 1 (dropWhile (\<lambda>c. c \<noteq> sep) (rev s))), True, rev (takeWhile (\<lambda>c. c \<noteq> sep) (rev s)))
      else ([], False, s))"

text \<open>\<open>s.split(sep)\<close> for a one-character separator.\<close>

fun split_acc :: "char \<Rightarrow> string \<Rightarrow> string \<Rightarrow> string list" where
  "split_acc sep cur [] = [rev cur]"
| "split_acc sep cur (c # s) =
     (if c = sep then rev cur # split_acc sep [] s else split_acc sep (c # cur) s)"

definition py_split :: "char \<Rightarrow> string \<Rightarrow> string list" where
  "py_split sep s = split_acc sep [] s"

definition is_digit_char :: "char \<Rightarrow> bool" where
  "is_digit_char c \<longleftrightarrow> (48::nat) \<le> of_char c \<and> of_char c \<le> (57::nat)"

definition is_alpha_char :: "char \<Rightarrow> bool" where
  "is_alpha_char c \<longleftrightarrow> ((65::nat) \<le> of_char c \<and> of_char c \<le> (90::nat)) \<or> ((97::nat) \<le> of_char c \<and> of_char c \<le> (122::nat))"

definition is_hex_char :: "char \<Rightarrow> bool" where
  "is_hex_char c \<longleftrightarrow> is_digit_char c \<or> c \<in> set ''abcdefABCDEF''"

text \<open>\<open>str.lower()\<close> on ASCII.\<close>

definition lower_char :: "char \<Rightarrow> char" where
  "lower_char c = (if (65::nat) \<le> of_char c \<and> of_char c \<le> (90::nat) then char_of (of_char c + (32::nat)) else c)"

definition py_lower :: "string \<Rightarrow> string" where
  "py_lower s = map lower_char s"

text \<open>\<open>int(s)\<close> for a string of decimal digits.\<close>

definition digits_val :: "string \<Rightarrow> nat" where
  "digits_val s = foldl (\<lambda>n c. 10 * n + (of_char c - 48)) 0 s"

section \<open>ipaddress\<close>

text \<open>\<open>IPv4Address._parse_octet\<close>: one to three digits, no leading zero, at most 255.\<close>

definition ipv4_octet_ok :: "string \<Rightarrow> bool" where
  "ipv4_octet_ok s \<longleftrightarrow>
     s \<noteq> [] \<and> (\<forall>c \<in> set s. is_digit_char c) \<and> length s \<le> 3 \<and>
     \<not> (s \<noteq> ''0'' \<and> hd s = CHR ''0'') \<and> digits_val s \<le> 255"

definition ipv4_ok :: "string \<Rightarrow> bool" where
  "ipv4_ok s \<longleftrightarrow> CHR ''/'' \<notin> set s \<and> length (py_split CHR ''.'' s) = 4 \<and>
     (\<forall>oc \<in> set (py_split CHR ''.'' s). ipv4_octet_ok oc)"

text \<open>\<open>IPv6Address._parse_hextet\<close>: one to four hexadecimal digits.\<close>

definition hextet_ok :: "string \<Rightarrow> bool" where
  "hextet_ok s \<longleftrightarrow> s \<noteq> [] \<and> (\<forall>c \<in> set s. is_hex_char c) \<and> length s \<le> 4"

text \<open>
  \<open>IPv6Address._ip_int_from_string\<close> as a test: at least three parts, a final
  dotted part an IPv4 address standing for two hextets, at most nine parts, at
  most one empty inner part (the \<open>::\<close>), which must stand for at least one
  hextet, and every part it keeps a hextet.
\<close>

definition ipv6_parts_ok :: "string list \<Rightarrow> bool" where
  "ipv6_parts_ok parts =
     (let inner = filter (\<lambda>i. parts ! i = []) [1..<length parts - 1] in
      if length parts > 9 then False
      else case inner of
        [k] \<Rightarrow>
          (let hi = (if hd parts = [] then 0 else k);
               lo = (if last parts = [] then 0 else length parts - k - 1) in
           (hd parts = [] \<longrightarrow> k = 1) \<and> (last parts = [] \<longrightarrow> length parts - k - 1 = 1) \<and>
           hi + lo < 8 \<and> (\<forall>p \<in> set (take hi parts @ drop (length parts - lo) parts). hextet_ok p))
      | [] \<Rightarrow> length parts = 8 \<and> (\<forall>p \<in> set parts. hextet_ok p)
      | _ \<Rightarrow> False)"

definition ipv6_addr_ok :: "string \<Rightarrow> bool" where
  "ipv6_addr_ok s =
     (s \<noteq> [] \<and>
      (let parts = py_split CHR '':'' s in
       length parts \<ge> 3 \<and>
       (if CHR ''.'' \<in> set (last parts)
        then ipv4_ok (last parts) \<and> ipv6_parts_ok (butlast parts @ [''0'', ''0''])
        else ipv6_parts_ok parts)))"

text \<open>\<open>IPv6Address(s)\<close>, with its \<open>%scope\<close> suffix.\<close>

definition ipv6_ok :: "string \<Rightarrow> bool" where
  "ipv6_ok s =
     (CHR ''/'' \<notin> set s \<and>
      (case py_partition CHR ''%'' s of
        (a, False, _) \<Rightarrow> ipv6_addr_ok a
      | (a, True, scope) \<Rightarrow> scope \<noteq> [] \<and> CHR ''%'' \<notin> set scope \<and> ipv6_addr_ok a))"

text \<open>
  \<open>_check_bracketed_host\<close>: an IPvFuture literal \<open>v<hex>.<any>\<close>, or an address
  that \<open>ipaddress.ip_address\<close> reads as IPv6 (an IPv4 address is refused).
\<close>

definition bracketed_host_ok :: "string \<Rightarrow> bool" where
  "bracketed_host_ok h =
     (case h of
        CHR ''v'' # r \<Rightarrow>
          (let hx = takeWhile is_hex_char r; rest = dropWhile is_hex_char r in
           hx \<noteq> [] \<and> take 1 rest = ''.'' \<and> length rest \<ge> 2)
      | _ \<Rightarrow> \<not> ipv4_ok h \<and> ipv6_ok h)"

section \<open>urlsplit and urlparse\<close>

record split_result =
  sr_scheme :: string
  sr_netloc :: string
  sr_path :: string
  sr_query :: string
  sr_fragment :: string

definition scheme_char :: "char \<Rightarrow> bool" where
  "scheme_char c \<longleftrightarrow> is_alpha_char c \<or> is_digit_char c \<or> c \<in> set ''+-.''"

text \<open>\<open>url.lstrip(_WHATWG_C0_CONTROL_OR_SPACE)\<close> and the removal of tab, CR, LF.\<close>

definition url_clean :: "string \<Rightarrow> string" where
  "url_clean url =
     filter (\<lambda>c. c \<notin> {CHR 0x09, CHR 0x0D, CHR 0x0A}) (dropWhile (\<lambda>c. of_char c \<le> (32::nat)) url)"

text \<open>\<open>_splitnetloc(url, 2)\<close>: up to the first of \<open>/?#\<close>.\<close>

definition split_netloc :: "string \<Rightarrow> string \<times> string" where
  "split_netloc s = (takeWhile (\<lambda>c. c \<notin> set ''/?#'') s, dropWhile (\<lambda>c. c \<notin> set ''/?#'') s)"

text \<open>\<open>urlsplit(url)\<close> with the default \<open>scheme=''\<close> and \<open>allow_fragments=True\<close>.\<close>

definition urlsplit :: "string \<Rightarrow> py_exc + split_result" where
  "urlsplit url0 =
     (let url1 = url_clean url0;
          (pre, has_colon, post) = py_partition CHR '':'' url1;
          (scheme, url2) =
            (if has_colon \<and> pre \<noteq> [] \<and> is_alpha_char (hd pre) \<and> (\<forall>c \<in> set pre. scheme_char c)
             then (py_lower pre, post) else ([], url1));
          (netloc, url3) = (if take 2 url2 = ''//'' then split_netloc (drop 2 url2) else ([], url2))
      in if (CHR ''['' \<in> set netloc) \<noteq> (CHR '']'' \<in> set netloc) then Inl ValueError
         else if CHR ''['' \<in> set netloc \<and>
                 \<not> bracketed_host_ok (fst (py_partition CHR '']'' (snd (snd (py_partition CHR ''['' netloc)))))
         then Inl ValueError
         else
           (let (url4, fragment) = (case py_partition CHR ''#'' url3 of (a, True, f) \<Rightarrow> (a, f) | (a, False, _) \<Rightarrow> (a, []));
                (path, query) = (case py_partition CHR ''?'' url4 of (a, True, q) \<Rightarrow> (a, q) | (a, False, _) \<Rightarrow> (a, []))
            in Inr \<lparr>sr_scheme = scheme, sr_netloc = netloc, sr_path = path, sr_query = query,
                    sr_fragment = fragment\<rparr>))"

text \<open>\<open>_splitparams\<close>: the path without its \<open>;params\<close> suffix (after the last \<open>/\<close>).\<close>

definition split_params :: "string \<Rightarrow> string" where
  "split_params p =
     (if CHR ''/'' \<in> set p
      then (let last_seg = rev (takeWhile (\<lambda>c. c \<noteq> CHR ''/'') (rev p));
                before = take (length p - length last_seg) p
            in before @ takeWhile (\<lambda>c. c \<noteq> CHR '';'') last_seg)
      else takeWhile (\<lambda>c. c \<noteq> CHR '';'') p)"

definition uses_params :: "string list" where
  "uses_params = ['''', ''ftp'', ''hdl'', ''prospero'', ''http'', ''imap'', ''https'', ''shttp'', ''rtsp'',
     ''rtsps'', ''rtspu'', ''sip'', ''sips'', ''mms'', ''sftp'', ''tel'']"

text \<open>\<open>urlparse(url)\<close>: \<open>urlsplit\<close>, then the path loses its parameters.\<close>

definition urlparse :: "string \<Rightarrow> py_exc + split_result" where
  "urlparse url =
     (case urlsplit url of
        Inl e \<Rightarrow> Inl e
      | Inr r \<Rightarrow>
          Inr (if sr_scheme r \<in> set uses_params \<and> CHR '';'' \<in> set (sr_path r)
               then r\<lparr>sr_path := split_params (sr_path r)\<rparr> else r))"

text \<open>A scheme as \<open>urlsplit\<close> returns it: a letter, then scheme characters, lower case.\<close>

definition scheme_ok :: "string \<Rightarrow> bool" where
  "scheme_ok s \<longleftrightarrow> s \<noteq> [] \<and> is_alpha_char (hd s) \<and> (\<forall>c \<in> set s. scheme_char c) \<and> py_lower s = s"
section \<open>The attributes of the result\<close>

text \<open>\<open>_userinfo\<close>: \<open>(username, password)\<close>.\<close>

definition url_userinfo :: "split_result \<Rightarrow> string option \<times> string option" where
  "url_userinfo r =
     (case py_rpartition CHR ''@'' (sr_netloc r) of
        (userinfo, True, _) \<Rightarrow>
          (case py_partition CHR '':'' userinfo of
             (u, True, p) \<Rightarrow> (Some u, Some p)
           | (u, False, _) \<Rightarrow> (Some u, None))
      | (_, False, _) \<Rightarrow> (None, None))"

text \<open>\<open>_hostinfo\<close>: \<open>(hostname, port)\<close> before conversion.\<close>

definition url_hostinfo :: "split_result \<Rightarrow> string \<times> string option" where
  "url_hostinfo r =
     (let hostinfo = snd (snd (py_rpartition CHR ''@'' (sr_netloc r)));
          (hostname, port) =
            (case py_partition CHR ''['' hostinfo of
               (_, True, bracketed) \<Rightarrow>
                 (case py_partition CHR '']'' bracketed of
                    (h, _, p) \<Rightarrow> (h, snd (snd (py_partition CHR '':'' p))))
             | (_, False, _) \<Rightarrow> (case py_partition CHR '':'' hostinfo of (h, _, p) \<Rightarrow> (h, p)))
      in (hostname, if port = [] then None else Some port))"

definition url_username :: "split_result \<Rightarrow> string option" where
  "url_username r = fst (url_userinfo r)"

definition url_password :: "split_result \<Rightarrow> string option" where
  "url_password r = snd (url_userinfo r)"

text \<open>\<open>hostname\<close>: lower-cased up to a \<open>%zone\<close> suffix; \<open>None\<close> when empty.\<close>

definition host_lower :: "string \<Rightarrow> string" where
  "host_lower h =
     (case py_partition CHR ''%'' h of
        (a, True, z) \<Rightarrow> py_lower a @ ''%'' @ z
      | (a, False, _) \<Rightarrow> py_lower a)"

definition url_hostname :: "split_result \<Rightarrow> string option" where
  "url_hostname r = (let h = fst (url_hostinfo r) in if h = [] then None else Some (host_lower h))"

text \<open>\<open>port\<close>: decimal digits in \<open>0..65535\<close>, else \<open>ValueError\<close>.\<close>

definition url_port :: "split_result \<Rightarrow> py_exc + int option" where
  "url_port r =
     (case snd (url_hostinfo r) of
        None \<Rightarrow> Inr None
      | Some p \<Rightarrow>
          (if \<forall>c \<in> set p. is_digit_char c
           then (if digits_val p \<le> 65535 then Inr (Some (int (digits_val p))) else Inl ValueError)
           else Inl ValueError))"

text \<open>The characters \<open>urlsplit\<close> removes, and its bracket checks on the netloc.\<close>

abbreviation nt :: "char \<Rightarrow> bool" where "nt c \<equiv> c \<notin> {CHR 0x09, CHR 0x0D, CHR 0x0A}"

definition brackets_ok :: "string \<Rightarrow> bool" where
  "brackets_ok n \<longleftrightarrow> (CHR ''['' \<in> set n) = (CHR '']'' \<in> set n) \<and>
     (CHR ''['' \<in> set n \<longrightarrow> bracketed_host_ok (fst (py_partition CHR '']'' (snd (snd (py_partition CHR ''['' n))))))"

section \<open>Lemmas\<close>
lemma digits_val_snoc: "digits_val (xs @ [c]) = 10 * digits_val xs + (of_char c - 48)"
  by (simp add: digits_val_def)

lemma nat_digits_props: "nat_digits n \<noteq> [] \<and> (\<forall>c \<in> set (nat_digits n). is_digit_char c) \<and> digits_val (nat_digits n) = n"
proof (induction n rule: nat_digits.induct)
  case (1 n)
  have dig: "is_digit_char (char_of (48 + k))" if "k < 10" for k :: nat
    using that by (simp add: is_digit_char_def)
  show ?case
  proof (cases "n < 10")
    case True
    then show ?thesis by (simp add: nat_digits.simps dig digits_val_def)
  next
    case False
    with 1 show ?thesis by (simp add: nat_digits.simps[of n] dig digits_val_snoc)
  qed
qed

lemma url_clean_scheme:
  assumes "scheme_ok s" shows "url_clean (s @ x) = s @ filter (\<lambda>c. c \<notin> {CHR 0x09, CHR 0x0D, CHR 0x0A}) x"
proof -
  obtain c t where s: "s = c # t" using assms by (cases s) (auto simp: scheme_ok_def)
  have "is_alpha_char c" "\<forall>c \<in> set s. scheme_char c" using assms s by (auto simp: scheme_ok_def)
  then have "\<not> of_char c \<le> (32::nat)" "\<forall>c \<in> set s. c \<notin> {CHR 0x09, CHR 0x0D, CHR 0x0A}"
    by (auto simp: is_alpha_char_def scheme_char_def is_digit_char_def)
  then show ?thesis using s unfolding url_clean_def by (simp add: filter_id_conv)
qed
lemma py_partition_found: "sep \<notin> set a \<Longrightarrow> py_partition sep (a @ sep # b) = (a, True, b)"
  by (induction a) (auto simp: py_partition_def)
lemma py_partition_none: "sep \<notin> set a \<Longrightarrow> py_partition sep a = (a, False, [])"
  by (induction a) (auto simp: py_partition_def)
lemma py_rpartition_none: "sep \<notin> set a \<Longrightarrow> py_rpartition sep a = ([], False, a)"
  by (simp add: py_rpartition_def)
lemma split_netloc_all: "\<forall>c \<in> set x. c \<notin> set ''/?#'' \<Longrightarrow> split_netloc x = (x, [])"
  by (simp add: split_netloc_def takeWhile_eq_all_conv dropWhile_eq_Nil_conv)

lemma urlsplit_server:
  assumes s: "scheme_ok s" and h: "\<forall>c \<in> set h. c \<notin> set '':/?#[]'' \<and> c \<notin> {CHR 0x09, CHR 0x0D, CHR 0x0A}"
  shows "urlsplit (s @ ''://'' @ h @ '':'' @ nat_digits n) =
           Inr \<lparr>sr_scheme = s, sr_netloc = h @ '':'' @ nat_digits n, sr_path = [], sr_query = [], sr_fragment = []\<rparr>"
proof -
  have d: "\<forall>c \<in> set (nat_digits n). is_digit_char c" using nat_digits_props by blast
  have dc: "\<forall>c \<in> set (nat_digits n). c \<notin> set '':/?#[]'' \<and> c \<notin> {CHR 0x09, CHR 0x0D, CHR 0x0A}"
    using d by (auto simp: is_digit_char_def)
  note hc = h
  have sc: "CHR '':'' \<notin> set s" using s by (auto simp: scheme_ok_def scheme_char_def is_alpha_char_def is_digit_char_def)
  have clean: "url_clean (s @ ''://'' @ h @ '':'' @ nat_digits n) = s @ ''://'' @ h @ '':'' @ nat_digits n"
    using url_clean_scheme[OF s] hc dc by (simp add: filter_id_conv)
  have part: "py_partition CHR '':'' (s @ ''://'' @ h @ '':'' @ nat_digits n) = (s, True, ''//'' @ h @ '':'' @ nat_digits n)"
    using py_partition_found[OF sc, of "''//'' @ h @ '':'' @ nat_digits n"] by simp
  have net: "split_netloc (h @ '':'' @ nat_digits n) = (h @ '':'' @ nat_digits n, [])"
    using hc dc by (intro split_netloc_all) auto
  have nob: "CHR ''['' \<notin> set (h @ '':'' @ nat_digits n)" "CHR '']'' \<notin> set (h @ '':'' @ nat_digits n)"
    using hc dc by auto
  show ?thesis using s clean part net nob
    by (simp add: urlsplit_def scheme_ok_def py_partition_def)
qed

lemma set_partition_parts:
  "set (takeWhile P s) \<subseteq> set s" "set (drop (Suc 0) (dropWhile P s)) \<subseteq> set s"
  by (auto dest: set_takeWhileD in_set_dropD set_dropWhileD)

lemma py_partition_sets:
  "py_partition sep s = (a, f, b) \<Longrightarrow> set a \<subseteq> set s \<and> sep \<notin> set a \<and> set b \<subseteq> set s"
  using set_partition_parts[where P="\<lambda>c. c \<noteq> sep" and s=s] by (auto simp: py_partition_def dest: set_takeWhileD)

lemma py_rpartition_sets:
  "py_rpartition sep s = (a, f, b) \<Longrightarrow> set a \<subseteq> set s \<and> set b \<subseteq> set s \<and> (f \<longrightarrow> sep \<notin> set b)"
  using set_partition_parts[where P="\<lambda>c. c \<noteq> sep" and s="rev s"]
  by (auto simp: py_rpartition_def split: if_splits dest: set_takeWhileD)

lemma lower_char_id: "\<not> is_alpha_char (lower_char c) \<Longrightarrow> lower_char c = c"
  by (auto simp: lower_char_def is_alpha_char_def)

lemma host_lower_set: assumes "c \<in> set (host_lower h)" "\<not> is_alpha_char c" shows "c \<in> set h"
proof -
  obtain a f z where p: "py_partition CHR ''%'' h = (a, f, z)" by (metis prod_cases3)
  then have sub: "set a \<subseteq> set h" "set z \<subseteq> set h" and f: "f \<longleftrightarrow> CHR ''%'' \<in> set h"
    using py_partition_sets[OF p] by (auto simp: py_partition_def)
  have "c \<in> lower_char ` set a \<Longrightarrow> c \<in> set h" using sub assms(2) lower_char_id by (metis image_iff subsetD)
  then show ?thesis using assms p sub f by (cases f) (auto simp: host_lower_def py_lower_def)
qed

lemma url_clean_set: "set (url_clean u) \<subseteq> set u - {CHR 0x09, CHR 0x0D, CHR 0x0A}"
  by (auto simp: url_clean_def dest: set_dropWhileD)

lemma urlsplit_netloc:
  assumes "urlsplit u = Inr r"
  shows "set (sr_netloc r) \<subseteq> set (url_clean u) - set ''/?#''"
proof -
  obtain pre f post where p: "py_partition CHR '':'' (url_clean u) = (pre, f, post)" by (metis prod_cases3)
  define url2 where "url2 = (if f \<and> pre \<noteq> [] \<and> is_alpha_char (hd pre) \<and> (\<forall>c \<in> set pre. scheme_char c)
                             then post else url_clean u)"
  have u2: "set url2 \<subseteq> set (url_clean u)" using py_partition_sets[OF p] by (auto simp: url2_def)
  have "sr_netloc r = (if take 2 url2 = ''//'' then fst (split_netloc (drop 2 url2)) else [])"
    using assms p by (auto simp: urlsplit_def url2_def Let_def split: prod.splits if_splits sum.splits)
  then show ?thesis using u2
    by (auto simp: split_netloc_def dest: set_takeWhileD in_set_dropD split: if_splits)
qed
lemma nat_digits_inj: "nat_digits m = nat_digits n \<Longrightarrow> m = n"
  by (metis nat_digits_props)

lemma py_rpartition_sep: "py_rpartition sep s = (a, f, b) \<Longrightarrow> sep \<notin> set b"
  by (auto simp: py_rpartition_def split: if_splits dest: set_takeWhileD)

lemma hostinfo_set: "set (fst (url_hostinfo r)) \<subseteq> set (sr_netloc r) - {CHR ''@''}"
proof -
  obtain a f hi where p: "py_rpartition CHR ''@'' (sr_netloc r) = (a, f, hi)" by (metis prod_cases3)
  have hi: "set hi \<subseteq> set (sr_netloc r) - {CHR ''@''}"
    using py_rpartition_sets[OF p] py_rpartition_sep[OF p] by auto
  show ?thesis using hi p
    by (auto simp: url_hostinfo_def Let_def split: prod.splits bool.splits dest!: py_partition_sets)
qed

lemma of_char_lower:
  "of_char (lower_char c) = (if (65::nat) \<le> of_char c \<and> of_char c \<le> (90::nat) then of_char c + 32 else (of_char c :: nat))"
  using nat_of_char_less_256[of c] by (simp add: lower_char_def)

lemma char_eq_of_char: "c = d \<longleftrightarrow> (of_char c :: nat) = of_char d"
  by simp

lemma lower_char_props:
  "lower_char (lower_char c) = lower_char c"
  "is_alpha_char (lower_char c) \<longleftrightarrow> is_alpha_char c"
  "scheme_char (lower_char c) \<longleftrightarrow> scheme_char c"
  "lower_char c = CHR ''%'' \<longleftrightarrow> c = CHR ''%''"
  by (simp_all add: char_eq_of_char[of "lower_char _"] char_eq_of_char[of "lower_char c"] of_char_lower
        is_alpha_char_def scheme_char_def is_digit_char_def char_eq_of_char[of c])

lemma lower_char_pct: "CHR ''%'' = lower_char c \<longleftrightarrow> c = CHR ''%''"
  by (metis lower_char_props(4))
lemma py_lower_idem: "py_lower (py_lower s) = py_lower s"
  by (simp add: py_lower_def lower_char_props(1))

lemma host_lower_idem: "host_lower (host_lower h) = host_lower h"
proof -
  obtain a f z where p: "py_partition CHR ''%'' h = (a, f, z)" by (metis prod_cases3)
  have a: "CHR ''%'' \<notin> set (py_lower a)"
    using py_partition_sets[OF p] by (simp add: py_lower_def image_iff lower_char_pct)
  show ?thesis
  proof (cases f)
    case True
    then have "host_lower h = py_lower a @ CHR ''%'' # z" using p by (simp add: host_lower_def)
    then show ?thesis using py_partition_found[OF a, of z] by (simp add: host_lower_def py_lower_idem)
  next
    case False
    then have "host_lower h = py_lower a" using p by (simp add: host_lower_def)
    then show ?thesis using py_partition_none[OF a] by (simp add: host_lower_def py_lower_idem)
  qed
qed
lemma scheme_ok_lower:
  "s \<noteq> [] \<Longrightarrow> is_alpha_char (hd s) \<Longrightarrow> \<forall>c \<in> set s. scheme_char c \<Longrightarrow> scheme_ok (py_lower s)"
  by (cases s) (auto simp: scheme_ok_def py_lower_def lower_char_props comp_def)

lemma urlsplit_scheme: assumes "urlsplit u = Inr r" shows "sr_scheme r = [] \<or> scheme_ok (sr_scheme r)"
proof -
  obtain pre f post where p: "py_partition CHR '':'' (url_clean u) = (pre, f, post)" by (metis prod_cases3)
  have "sr_scheme r = (if f \<and> pre \<noteq> [] \<and> is_alpha_char (hd pre) \<and> (\<forall>c \<in> set pre. scheme_char c)
                       then py_lower pre else [])"
    using assms p by (auto simp: urlsplit_def Let_def split: prod.splits if_splits sum.splits)
  then show ?thesis by (simp add: scheme_ok_lower)
qed

lemma urlparse_split:
  "urlparse u = Inr r \<Longrightarrow> \<exists>r0. urlsplit u = Inr r0 \<and> sr_scheme r = sr_scheme r0 \<and> sr_netloc r = sr_netloc r0"
  by (auto simp: urlparse_def split: sum.splits)

lemma url_port_range: "url_port r = Inr (Some p) \<Longrightarrow> 0 \<le> p \<and> p \<le> 65535"
  by (auto simp: url_port_def split: option.splits if_splits)

lemma host_lower_Nil: "host_lower h = [] \<longleftrightarrow> h = []"
proof (cases "CHR ''%'' \<in> set h")
  case True then show ?thesis by (auto simp: host_lower_def py_partition_def)
next
  case False then show ?thesis by (simp add: host_lower_def py_partition_none py_lower_def)
qed

lemma py_partition_fst: "fst (py_partition c s) = takeWhile (\<lambda>x. x \<noteq> c) s"
  by (simp add: py_partition_def)

lemma urlsplit_auth:
  assumes s: "scheme_ok s"
  shows "urlsplit (s @ ''://'' @ x) =
     (let (n, rest) = split_netloc (filter nt x) in
      if brackets_ok n then
        Inr \<lparr>sr_scheme = s, sr_netloc = n,
             sr_path = fst (py_partition CHR ''?'' (fst (py_partition CHR ''#'' rest))),
             sr_query = (case py_partition CHR ''?'' (fst (py_partition CHR ''#'' rest)) of (a, True, q) \<Rightarrow> q | (a, False, _) \<Rightarrow> []),
             sr_fragment = (case py_partition CHR ''#'' rest of (a, True, f) \<Rightarrow> f | (a, False, _) \<Rightarrow> [])\<rparr>
      else Inl ValueError)"
proof -
  have sc: "CHR '':'' \<notin> set s" using s by (auto simp: scheme_ok_def scheme_char_def is_alpha_char_def is_digit_char_def)
  have clean: "url_clean (s @ ''://'' @ x) = s @ ''://'' @ filter nt x"
    using url_clean_scheme[OF s] by simp
  have part: "py_partition CHR '':'' (s @ ''://'' @ filter nt x) = (s, True, ''//'' @ filter nt x)"
    using py_partition_found[OF sc] by simp
  show ?thesis using s clean part
    by (auto simp: urlsplit_def scheme_ok_def brackets_ok_def Let_def split: prod.split bool.split)
qed

lemma urlsplit_brackets: "urlsplit u = Inr r \<Longrightarrow> brackets_ok (sr_netloc r)"
  by (auto simp: urlsplit_def brackets_ok_def Let_def split: prod.splits if_splits)

lemma urlsplit_auth_Inr:
  assumes s: "scheme_ok s" and r: "urlsplit (s @ ''://'' @ x) = Inr r"
  shows "sr_netloc r = fst (split_netloc (filter nt x)) \<and> (sr_path r = [] \<or> hd (sr_path r) = CHR ''/'')"
proof -
  obtain n rest where sp: "split_netloc (filter nt x) = (n, rest)" by fastforce
  have "rest = dropWhile (\<lambda>c. c \<notin> set ''/?#'') (filter nt x)" using sp by (simp add: split_netloc_def)
  then have rest: "rest = [] \<or> hd rest \<in> set ''/?#''"
    using hd_dropWhile[of "\<lambda>c. c \<notin> set ''/?#''" "filter nt x"] by (cases rest) auto
  have "sr_netloc r = n \<and> sr_path r = takeWhile (\<lambda>c. c \<noteq> CHR ''?'') (takeWhile (\<lambda>c. c \<noteq> CHR ''#'') rest)"
    using r urlsplit_auth[OF s, of x] sp by (auto simp: py_partition_fst split: if_splits)
  then show ?thesis using rest sp by (cases rest) auto
qed

lemma host_lower_length: "length (host_lower h) = length h"
proof (cases "CHR ''%'' \<in> set h")
  case True
  have s: "length (takeWhile (\<lambda>c. c \<noteq> CHR ''%'') h) + length (dropWhile (\<lambda>c. c \<noteq> CHR ''%'') h) = length h"
    by (metis length_append takeWhile_dropWhile_id)
  have "dropWhile (\<lambda>c. c \<noteq> CHR ''%'') h \<noteq> []" using True by (simp add: dropWhile_eq_Nil_conv)
  then have "0 < length (dropWhile (\<lambda>c. c \<noteq> CHR ''%'') h)" by simp
  then show ?thesis using True s by (simp only: host_lower_def py_partition_def py_lower_def) simp
next
  case False
  then have "takeWhile (\<lambda>c. c \<noteq> CHR ''%'') h = h" by (auto simp: takeWhile_eq_all_conv)
  then show ?thesis using False by (simp only: host_lower_def py_partition_def py_lower_def) simp
qed

lemmas url_defs = urlparse_def urlsplit_def url_clean_def py_partition_def py_rpartition_def split_netloc_def
  bracketed_host_ok_def scheme_char_def is_alpha_char_def is_digit_char_def py_lower_def lower_char_def
  uses_params_def split_params_def url_userinfo_def url_hostinfo_def url_username_def url_password_def
  url_hostname_def host_lower_def url_port_def digits_val_def
  ipv4_ok_def ipv6_ok_def ipv6_addr_ok_def ipv6_parts_ok_def py_split_def hextet_ok_def is_hex_char_def
  ipv4_octet_ok_def

end
