(* ===== verification/ProxyConfig.thy ===== *)
theory ProxyConfig
  imports UrlParse
begin

text \<open>
  \<open>src/proxy_service/proxy_config.py\<close>: the \<open>ProxyConfig\<close> dataclass, its
  \<open>parse\<close> class method over the model of \<open>urlparse\<close>, \<open>needs_auth\<close>,
  \<open>to_browser_arg\<close> and the equality and hash by \<open>proxy_key\<close>.
\<close>

record proxy_config =
  pc_server :: string
  pc_proxy_key :: string
  pc_host :: string
  pc_port :: int
  pc_username :: "string option"
  pc_password :: "string option"
  pc_scheme :: string

text \<open>\<open>f"{scheme}://{host}:{port}"\<close>, and the same with \<open>{user}@\<close> before the host.\<close>

definition server_str :: "string \<Rightarrow> string \<Rightarrow> int \<Rightarrow> string" where
  "server_str scheme h p = scheme @ ''://'' @ h @ '':'' @ int_str p"

definition user_key_str :: "string \<Rightarrow> string \<Rightarrow> string \<Rightarrow> int \<Rightarrow> string" where
  "user_key_str scheme u h p = scheme @ ''://'' @ u @ ''@'' @ h @ '':'' @ int_str p"

text \<open>
  \<open>ProxyConfig.parse\<close>: \<open>ValueError\<close> when \<open>urlparse\<close> raises, when the host
  name is missing or empty, when reading the port raises, and when the port is
  missing or 0; the scheme defaults to \<open>http\<close>, and the key names the user only
  when the user name is not empty.
\<close>

definition proxy_parse :: "string \<Rightarrow> py_exc + proxy_config" where
  "proxy_parse u =
     (case urlparse u of
        Inl e \<Rightarrow> Inl e
      | Inr r \<Rightarrow>
          (case url_hostname r of
             None \<Rightarrow> Inl ValueError
           | Some h \<Rightarrow>
               (if h = [] then Inl ValueError
                else case url_port r of
                  Inl e \<Rightarrow> Inl e
                | Inr None \<Rightarrow> Inl ValueError
                | Inr (Some p) \<Rightarrow>
                    (if p = 0 then Inl ValueError
                     else
                       (let scheme = (if sr_scheme r = [] then ''http'' else sr_scheme r);
                            server = server_str scheme h p;
                            key = (case url_username r of
                                     Some un \<Rightarrow> (if un \<noteq> [] then user_key_str scheme un h p else server)
                                   | None \<Rightarrow> server)
                        in Inr \<lparr>pc_server = server, pc_proxy_key = key, pc_host = h, pc_port = p,
                                pc_username = url_username r, pc_password = url_password r,
                                pc_scheme = scheme\<rparr>)))))"

definition needs_auth :: "proxy_config \<Rightarrow> bool" where
  "needs_auth c \<longleftrightarrow> pc_username c \<notin> {None, Some []} \<and> pc_password c \<notin> {None, Some []}"

definition to_browser_arg :: "proxy_config \<Rightarrow> string" where
  "to_browser_arg c = ''--proxy-server='' @ pc_server c"

text \<open>\<open>__eq__\<close> (and \<open>__hash__\<close>): two configurations are one when their keys are.\<close>

definition proxy_eq :: "proxy_config \<Rightarrow> proxy_config \<Rightarrow> bool" where
  "proxy_eq a b \<longleftrightarrow> pc_proxy_key a = pc_proxy_key b"

text \<open>
  The shape of every configuration \<open>parse\<close> returns: a scheme as \<open>urlsplit\<close>
  gives it, a non-empty lower-case host name without the URL delimiters, a
  port in \<open>1..65535\<close>, and the server and key strings built from them.
\<close>

definition host_ok :: "string \<Rightarrow> bool" where
  "host_ok h \<longleftrightarrow> h \<noteq> [] \<and> (\<forall>c \<in> set h. c \<notin> set ''/?#@'' \<and> c \<notin> {CHR 0x09, CHR 0x0D, CHR 0x0A}) \<and>
     host_lower h = h"

definition key_user :: "proxy_config \<Rightarrow> string option" where
  "key_user c = (case pc_username c of Some u \<Rightarrow> if u \<noteq> [] then Some u else None | None \<Rightarrow> None)"

definition proxy_wf :: "proxy_config \<Rightarrow> bool" where
  "proxy_wf c \<longleftrightarrow> scheme_ok (pc_scheme c) \<and> host_ok (pc_host c) \<and> 0 < pc_port c \<and> pc_port c \<le> 65535 \<and>
     pc_server c = server_str (pc_scheme c) (pc_host c) (pc_port c) \<and>
     pc_proxy_key c = (case key_user c of
                         Some u \<Rightarrow> user_key_str (pc_scheme c) u (pc_host c) (pc_port c)
                       | None \<Rightarrow> pc_server c)"

section \<open>Lemmas\<close>

lemma proxy_parse_Inr:
  assumes "proxy_parse u = Inr c"
  obtains r h p where "urlparse u = Inr r" "url_hostname r = Some h" "h \<noteq> []" "url_port r = Inr (Some p)"
    "p \<noteq> 0" "c = (let scheme = (if sr_scheme r = [] then ''http'' else sr_scheme r) in
       \<lparr>pc_server = server_str scheme h p,
        pc_proxy_key = (case url_username r of
                          Some un \<Rightarrow> (if un \<noteq> [] then user_key_str scheme un h p else server_str scheme h p)
                        | None \<Rightarrow> server_str scheme h p),
        pc_host = h, pc_port = p, pc_username = url_username r, pc_password = url_password r,
        pc_scheme = scheme\<rparr>)"
  using assms by (auto simp: proxy_parse_def Let_def split: sum.splits option.splits if_splits)

lemma hostname_ok:
  assumes "urlparse u = Inr r" "url_hostname r = Some h"
  shows "host_ok h"
proof -
  obtain r0 where r0: "urlsplit u = Inr r0" "sr_netloc r = sr_netloc r0" using urlparse_split[OF assms(1)] by blast
  obtain h0 where h0: "h0 = fst (url_hostinfo r)" "h0 \<noteq> []" "h = host_lower h0"
    using assms(2) by (auto simp: url_hostname_def Let_def split: if_splits)
  have sub: "set h0 \<subseteq> set u - {CHR 0x09, CHR 0x0D, CHR 0x0A} - set ''/?#@''"
    using hostinfo_set[of r] urlsplit_netloc[OF r0(1)] url_clean_set[of u] h0(1) r0(2) by auto
  have "c \<notin> set ''/?#@'' \<and> c \<notin> {CHR 0x09, CHR 0x0D, CHR 0x0A}" if "c \<in> set h" for c
  proof (cases "is_alpha_char c")
    case True then show ?thesis by (auto simp: is_alpha_char_def)
  next
    case False then show ?thesis using host_lower_set[of c h0] that h0(3) sub by auto
  qed
  moreover have "h \<noteq> []" using h0 by (simp add: host_lower_Nil)
  ultimately show ?thesis using h0(3) by (simp add: host_ok_def host_lower_idem)
qed

lemma int_str_pos: "0 < p \<Longrightarrow> int_str p = nat_digits (nat p)"
  by (simp add: int_str_def)

lemma digits_no_delims: "c \<in> set (nat_digits n) \<Longrightarrow> c \<notin> set '':@[]%/?#'' \<and> c \<notin> {CHR 0x09, CHR 0x0D, CHR 0x0A}"
  using nat_digits_props[of n] by (auto simp: is_digit_char_def)


lemma scheme_char_delims: "scheme_char c \<Longrightarrow> c \<noteq> CHR '':'' \<and> c \<noteq> CHR ''@''"
  by (auto simp: scheme_char_def is_alpha_char_def is_digit_char_def)

lemma scheme_no_colon: "scheme_ok s \<Longrightarrow> CHR '':'' \<notin> set s \<and> CHR ''@'' \<notin> set s"
  using scheme_char_delims by (fastforce simp: scheme_ok_def)

lemma int_str_delims: "0 < p \<Longrightarrow> CHR '':'' \<notin> set (int_str p) \<and> CHR ''@'' \<notin> set (int_str p)"
  using digits_no_delims[of "CHR '':''" "nat p"] digits_no_delims[of "CHR ''@''" "nat p"] by (auto simp: int_str_pos)

lemma hostport_inj:
  assumes "0 < p1" "0 < p2" "h1 @ CHR '':'' # int_str p1 = h2 @ CHR '':'' # int_str p2"
  shows "h1 = h2 \<and> p1 = p2"
proof -
  have "CHR '':'' \<notin> set (int_str p1)" "CHR '':'' \<notin> set (int_str p2)"
    using assms(1,2) int_str_delims by auto
  then have "h1 = h2 \<and> int_str p1 = int_str p2" using append_sep_last[OF _ _ assms(3)] by blast
  then have "h1 = h2 \<and> nat p1 = nat p2" using assms(1,2) nat_digits_inj by (simp add: int_str_pos)
  then show ?thesis using assms(1,2) eq_nat_nat_iff by auto
qed

lemma server_str_inj:
  assumes "scheme_ok s1" "scheme_ok s2" "0 < p1" "0 < p2" "server_str s1 h1 p1 = server_str s2 h2 p2"
  shows "s1 = s2 \<and> h1 = h2 \<and> p1 = p2"
proof -
  have eq: "s1 @ CHR '':'' # (''//'' @ h1 @ CHR '':'' # int_str p1) = s2 @ CHR '':'' # (''//'' @ h2 @ CHR '':'' # int_str p2)"
    using assms(5) by (simp add: server_str_def)
  have "CHR '':'' \<notin> set s1" "CHR '':'' \<notin> set s2" using scheme_no_colon assms(1,2) by auto
  from append_sep_first[OF this eq]
  have "s1 = s2 \<and> h1 @ CHR '':'' # int_str p1 = h2 @ CHR '':'' # int_str p2" by simp
  then show ?thesis using hostport_inj assms(3,4) by blast
qed

lemma no_at_hostport: "host_ok h \<Longrightarrow> 0 < p \<Longrightarrow> CHR ''@'' \<notin> set (h @ CHR '':'' # int_str p)"
  using int_str_delims[of p] by (auto simp: host_ok_def)

lemma user_key_str_inj:
  assumes "scheme_ok s1" "scheme_ok s2" "host_ok h1" "host_ok h2" "0 < p1" "0 < p2"
    "user_key_str s1 u1 h1 p1 = user_key_str s2 u2 h2 p2"
  shows "s1 = s2 \<and> u1 = u2 \<and> h1 = h2 \<and> p1 = p2"
proof -
  have eq: "s1 @ CHR '':'' # (''//'' @ u1 @ CHR ''@'' # (h1 @ CHR '':'' # int_str p1)) =
        s2 @ CHR '':'' # (''//'' @ u2 @ CHR ''@'' # (h2 @ CHR '':'' # int_str p2))"
    using assms(7) by (simp add: user_key_str_def)
  have "CHR '':'' \<notin> set s1" "CHR '':'' \<notin> set s2" using scheme_no_colon assms(1,2) by auto
  from append_sep_first[OF this eq]
  have s: "s1 = s2" and
    u: "u1 @ CHR ''@'' # (h1 @ CHR '':'' # int_str p1) = u2 @ CHR ''@'' # (h2 @ CHR '':'' # int_str p2)"
    by simp_all
  have "u1 = u2 \<and> h1 @ CHR '':'' # int_str p1 = h2 @ CHR '':'' # int_str p2"
    using append_sep_last[OF no_at_hostport[OF assms(3,5)] no_at_hostport[OF assms(4,6)] u] .
  then show ?thesis using s hostport_inj assms(5,6) by blast
qed

lemma user_key_ne_server:
  assumes "scheme_ok s'" "host_ok h'" "0 < p'"
  shows "user_key_str s u h p \<noteq> server_str s' h' p'"
proof -
  have "CHR ''@'' \<notin> set (server_str s' h' p')"
    using scheme_no_colon[OF assms(1)] no_at_hostport[OF assms(2,3)] by (auto simp: server_str_def)
  moreover have "CHR ''@'' \<in> set (user_key_str s u h p)" by (simp add: user_key_str_def)
  ultimately show ?thesis by metis
qed

lemma scheme_ok_http: "scheme_ok ''http''"
  by (simp add: scheme_ok_def scheme_char_def is_alpha_char_def py_lower_def lower_char_def)


lemma urlparse_server:
  assumes s: "scheme_ok s" and h: "host_ok h" "\<forall>c \<in> set h. c \<notin> set '':[]''" and p: "0 < p"
  shows "urlparse (server_str s h p) =
           Inr \<lparr>sr_scheme = s, sr_netloc = h @ CHR '':'' # int_str p, sr_path = [], sr_query = [], sr_fragment = []\<rparr>"
proof -
  have "\<forall>c \<in> set h. c \<notin> set '':/?#[]'' \<and> c \<notin> {CHR 0x09, CHR 0x0D, CHR 0x0A}"
    using h by (auto simp: host_ok_def)
  from urlsplit_server[OF s this, of "nat p"] p show ?thesis
    by (simp add: urlparse_def server_str_def int_str_pos)
qed

lemma server_attrs:
  assumes h: "host_ok h" "\<forall>c \<in> set h. c \<notin> set '':[]''" and p: "0 < p" "p \<le> 65535"
    and r: "sr_netloc r = h @ CHR '':'' # int_str p"
  shows "url_username r = None" "url_password r = None" "url_hostname r = Some h" "url_port r = Inr (Some p)"
proof -
  have at: "CHR ''@'' \<notin> set (sr_netloc r)" using no_at_hostport[OF h(1) p(1)] r by simp
  have hc: "CHR ''['' \<notin> set h" "CHR '':'' \<notin> set h" using h(2) by auto
  have d: "CHR ''['' \<notin> set (int_str p)" "int_str p \<noteq> []" "\<forall>c \<in> set (int_str p). is_digit_char c"
    "digits_val (int_str p) = nat p"
    using p(1) digits_no_delims[of "CHR ''['' " "nat p"] nat_digits_props[of "nat p"] by (auto simp: int_str_pos)
  have hi: "url_hostinfo r = (h, Some (int_str p))"
    using at hc d py_partition_found[OF hc(2), of "int_str p"]
    by (simp add: url_hostinfo_def r py_rpartition_none py_partition_none)
  show "url_username r = None" "url_password r = None"
    using at by (simp_all add: url_username_def url_password_def url_userinfo_def py_rpartition_none)
  show "url_hostname r = Some h" using hi h(1) by (simp add: url_hostname_def host_ok_def)
  show "url_port r = Inr (Some p)" using hi d p by (simp add: url_port_def)
qed


lemma proxy_key_wf:
  "proxy_wf c \<Longrightarrow> pc_proxy_key c = (case key_user c of
      Some u \<Rightarrow> user_key_str (pc_scheme c) u (pc_host c) (pc_port c)
    | None \<Rightarrow> server_str (pc_scheme c) (pc_host c) (pc_port c))"
  by (simp add: proxy_wf_def split: option.split)


lemmas proxy_defs = proxy_parse_def url_defs server_str_def user_key_str_def int_str_def nat_digits.simps
  Let_def char_of_eq_iff char_of_eq_iff_sym

lemmas proxy_wf_defs = proxy_wf_def scheme_ok_def host_ok_def key_user_def scheme_char_def is_alpha_char_def
  is_digit_char_def py_lower_def lower_char_def host_lower_def py_partition_def server_str_def int_str_def
  nat_digits.simps char_of_eq_iff char_of_eq_iff_sym

section \<open>Properties\<close>

text \<open>
  C22: \<open>ProxyConfig.parse\<close> only returns well-formed configurations: the scheme
  is a lower-case URL scheme (\<open>http\<close> by default), the host is a non-empty
  lower-case name free of \<open>/?#@\<close> and of tab, CR and LF, the port lies in
  \<open>1..65535\<close>, and \<open>server\<close> and \<open>proxy_key\<close> are the strings built from them.
\<close>

theorem proxy_parse_wf:
  assumes "proxy_parse u = Inr c"
  shows "proxy_wf c"
proof -
  obtain r h p where r: "urlparse u = Inr r" "url_hostname r = Some h" "h \<noteq> []" "url_port r = Inr (Some p)"
    "p \<noteq> 0" and c: "c = (let scheme = (if sr_scheme r = [] then ''http'' else sr_scheme r) in
       \<lparr>pc_server = server_str scheme h p,
        pc_proxy_key = (case url_username r of
                          Some un \<Rightarrow> (if un \<noteq> [] then user_key_str scheme un h p else server_str scheme h p)
                        | None \<Rightarrow> server_str scheme h p),
        pc_host = h, pc_port = p, pc_username = url_username r, pc_password = url_password r,
        pc_scheme = scheme\<rparr>)"
    using assms by (rule proxy_parse_Inr)
  obtain r0 where "urlsplit u = Inr r0" "sr_scheme r = sr_scheme r0" using urlparse_split[OF r(1)] by blast
  then have sch: "scheme_ok (if sr_scheme r = [] then ''http'' else sr_scheme r)"
    using urlsplit_scheme scheme_ok_http by auto
  have "host_ok h" using hostname_ok r(1,2) .
  moreover have "0 < p \<and> p \<le> 65535" using url_port_range[OF r(4)] r(5) by simp
  ultimately show ?thesis using sch c
    by (simp add: proxy_wf_def key_user_def Let_def split: option.split)
qed

lemma proxy_parse_wf_witness:
  "proxy_parse ''http://user:pw@Proxy.Example.com:8080'' =
     Inr \<lparr>pc_server = ''http://proxy.example.com:8080'', pc_proxy_key = ''http://user@proxy.example.com:8080'',
          pc_host = ''proxy.example.com'', pc_port = 8080, pc_username = Some ''user'',
          pc_password = Some ''pw'', pc_scheme = ''http''\<rparr> \<and>
   proxy_wf \<lparr>pc_server = ''http://proxy.example.com:8080'', pc_proxy_key = ''http://user@proxy.example.com:8080'',
          pc_host = ''proxy.example.com'', pc_port = 8080, pc_username = Some ''user'',
          pc_password = Some ''pw'', pc_scheme = ''http''\<rparr>"
proof -
  have p: "proxy_parse ''http://user:pw@Proxy.Example.com:8080'' =
     Inr \<lparr>pc_server = ''http://proxy.example.com:8080'', pc_proxy_key = ''http://user@proxy.example.com:8080'',
          pc_host = ''proxy.example.com'', pc_port = 8080, pc_username = Some ''user'',
          pc_password = Some ''pw'', pc_scheme = ''http''\<rparr>"
    by (simp add: proxy_defs)
  show ?thesis using proxy_parse_wf[OF p] p by simp
qed

text \<open>
  C23: printing and parsing agree: the \<open>server\<close> string of a well-formed
  configuration whose host holds no \<open>:\<close>, \<open>[\<close> or \<open>]\<close> parses back to the same
  scheme, host, port and server, without user name or password.
\<close>

theorem proxy_server_roundtrip:
  assumes wf: "proxy_wf c" and h: "\<forall>ch \<in> set (pc_host c). ch \<notin> set '':[]''"
  shows "proxy_parse (pc_server c) = Inr (c\<lparr>pc_proxy_key := pc_server c, pc_username := None, pc_password := None\<rparr>)"
proof -
  have s: "scheme_ok (pc_scheme c)" and ho: "host_ok (pc_host c)" and p: "0 < pc_port c" "pc_port c \<le> 65535"
    and sv: "pc_server c = server_str (pc_scheme c) (pc_host c) (pc_port c)"
    using wf by (simp_all add: proxy_wf_def)
  note up = urlparse_server[OF s ho h p(1)]
  note at = server_attrs[OF ho h p, of "\<lparr>sr_scheme = pc_scheme c, sr_netloc = pc_host c @ CHR '':'' # int_str (pc_port c),
            sr_path = [], sr_query = [], sr_fragment = []\<rparr>", simplified]
  have "pc_scheme c \<noteq> []" "pc_host c \<noteq> []" using s ho by (simp_all add: scheme_ok_def host_ok_def)
  then show ?thesis using up at p sv by (cases c) (simp add: proxy_parse_def Let_def)
qed

lemma proxy_server_roundtrip_witness:
  "proxy_wf \<lparr>pc_server = ''socks5://10.0.0.7:1080'', pc_proxy_key = ''socks5://u@10.0.0.7:1080'',
       pc_host = ''10.0.0.7'', pc_port = 1080, pc_username = Some ''u'', pc_password = Some ''p'',
       pc_scheme = ''socks5''\<rparr> \<and>
   proxy_parse ''socks5://10.0.0.7:1080'' =
     Inr \<lparr>pc_server = ''socks5://10.0.0.7:1080'', pc_proxy_key = ''socks5://10.0.0.7:1080'',
       pc_host = ''10.0.0.7'', pc_port = 1080, pc_username = None, pc_password = None,
       pc_scheme = ''socks5''\<rparr>"
proof -
  have wf: "proxy_wf \<lparr>pc_server = ''socks5://10.0.0.7:1080'', pc_proxy_key = ''socks5://u@10.0.0.7:1080'',
       pc_host = ''10.0.0.7'', pc_port = 1080, pc_username = Some ''u'', pc_password = Some ''p'',
       pc_scheme = ''socks5''\<rparr>"
    by (simp add: proxy_wf_defs user_key_str_def)
  show ?thesis using proxy_server_roundtrip[OF wf] wf by simp
qed

text \<open>
  C24: \<open>__eq__\<close> and \<open>__hash__\<close> (by \<open>proxy_key\<close>) identify two well-formed
  configurations exactly when they agree on scheme, host, port and non-empty
  user name: the password plays no part, and equal configurations launch the
  same \<open>--proxy-server\<close>.
\<close>

theorem proxy_eq_iff:
  assumes a: "proxy_wf a" and b: "proxy_wf b"
  shows "proxy_eq a b \<longleftrightarrow>
           pc_scheme a = pc_scheme b \<and> pc_host a = pc_host b \<and> pc_port a = pc_port b \<and> key_user a = key_user b"
proof
  have f: "scheme_ok (pc_scheme a)" "scheme_ok (pc_scheme b)" "host_ok (pc_host a)" "host_ok (pc_host b)"
    "0 < pc_port a" "0 < pc_port b"
    using a b by (simp_all add: proxy_wf_def)
  assume "proxy_eq a b"
  then have eq: "pc_proxy_key a = pc_proxy_key b" by (simp add: proxy_eq_def)
  show "pc_scheme a = pc_scheme b \<and> pc_host a = pc_host b \<and> pc_port a = pc_port b \<and> key_user a = key_user b"
  proof (cases "key_user a"; cases "key_user b")
    assume "key_user a = None" "key_user b = None"
    then show ?thesis using eq server_str_inj[OF f(1,2,5,6)] by (simp add: proxy_key_wf[OF a] proxy_key_wf[OF b])
  next
    fix u assume "key_user a = None" "key_user b = Some u"
    then have "pc_proxy_key a = server_str (pc_scheme a) (pc_host a) (pc_port a)"
      "pc_proxy_key b = user_key_str (pc_scheme b) u (pc_host b) (pc_port b)"
      using proxy_key_wf[OF a] proxy_key_wf[OF b] by simp_all
    then show ?thesis using eq user_key_ne_server[OF f(1,3,5)] by metis
  next
    fix u assume "key_user a = Some u" "key_user b = None"
    then have "pc_proxy_key a = user_key_str (pc_scheme a) u (pc_host a) (pc_port a)"
      "pc_proxy_key b = server_str (pc_scheme b) (pc_host b) (pc_port b)"
      using proxy_key_wf[OF a] proxy_key_wf[OF b] by simp_all
    then show ?thesis using eq user_key_ne_server[OF f(2,4,6)] by metis
  next
    fix u v assume "key_user a = Some u" "key_user b = Some v"
    then show ?thesis using eq user_key_str_inj[OF f] by (simp add: proxy_key_wf[OF a] proxy_key_wf[OF b])
  qed
next
  assume "pc_scheme a = pc_scheme b \<and> pc_host a = pc_host b \<and> pc_port a = pc_port b \<and> key_user a = key_user b"
  then show "proxy_eq a b" using a b by (simp add: proxy_eq_def proxy_wf_def split: option.splits)
qed

lemma proxy_eq_iff_witness:
  "proxy_wf \<lparr>pc_server = ''http://h.com:3128'', pc_proxy_key = ''http://u@h.com:3128'',
       pc_host = ''h.com'', pc_port = 3128, pc_username = Some ''u'', pc_password = Some ''a'',
       pc_scheme = ''http''\<rparr> \<and>
   proxy_wf \<lparr>pc_server = ''http://h.com:3128'', pc_proxy_key = ''http://u@h.com:3128'',
       pc_host = ''h.com'', pc_port = 3128, pc_username = Some ''u'', pc_password = Some ''b'',
       pc_scheme = ''http''\<rparr> \<and>
   proxy_eq \<lparr>pc_server = ''http://h.com:3128'', pc_proxy_key = ''http://u@h.com:3128'',
       pc_host = ''h.com'', pc_port = 3128, pc_username = Some ''u'', pc_password = Some ''a'',
       pc_scheme = ''http''\<rparr>
     \<lparr>pc_server = ''http://h.com:3128'', pc_proxy_key = ''http://u@h.com:3128'',
       pc_host = ''h.com'', pc_port = 3128, pc_username = Some ''u'', pc_password = Some ''b'',
       pc_scheme = ''http''\<rparr>"
proof -
  have a: "proxy_wf \<lparr>pc_server = ''http://h.com:3128'', pc_proxy_key = ''http://u@h.com:3128'',
       pc_host = ''h.com'', pc_port = 3128, pc_username = Some ''u'', pc_password = Some ''a'',
       pc_scheme = ''http''\<rparr>"
    by (simp add: proxy_wf_defs user_key_str_def)
  have b: "proxy_wf \<lparr>pc_server = ''http://h.com:3128'', pc_proxy_key = ''http://u@h.com:3128'',
       pc_host = ''h.com'', pc_port = 3128, pc_username = Some ''u'', pc_password = Some ''b'',
       pc_scheme = ''http''\<rparr>"
    by (simp add: proxy_wf_defs user_key_str_def)
  show ?thesis using proxy_eq_iff[OF a b] a b by (simp add: key_user_def)
qed

lemma hostname_colon_no_bracket:
  assumes "url_hostname r = Some h" "CHR '':'' \<in> set h"
  shows "CHR '']'' \<notin> set h"
proof -
  obtain hn where hn: "hn = fst (url_hostinfo r)" "h = host_lower hn" using assms(1) by (auto simp: url_hostname_def Let_def split: if_splits)
  have col: "CHR '':'' \<in> set hn" using host_lower_set[of "CHR '':''" hn] assms(2) hn(2) by (simp add: is_alpha_char_def)
  have "CHR '']'' \<notin> set hn"
    using col hn(1) by (auto simp: url_hostinfo_def Let_def py_partition_def split: prod.splits bool.splits
        dest: set_takeWhileD)
  then show ?thesis using host_lower_set[of "CHR '']''" hn] hn(2) by (auto simp: is_alpha_char_def)
qed

lemma proxy_parse_shape:
  assumes "proxy_parse u = Inr c"
  shows "\<exists>r. urlparse u = Inr r \<and> url_hostname r = Some (pc_host c) \<and> scheme_ok (pc_scheme c) \<and>
           host_ok (pc_host c) \<and> 0 < pc_port c \<and> pc_server c = server_str (pc_scheme c) (pc_host c) (pc_port c)"
proof -
  obtain r h p where r: "urlparse u = Inr r" "url_hostname r = Some h" "h \<noteq> []" "url_port r = Inr (Some p)"
    "p \<noteq> 0" and c: "c = (let scheme = (if sr_scheme r = [] then ''http'' else sr_scheme r) in
       \<lparr>pc_server = server_str scheme h p,
        pc_proxy_key = (case url_username r of
                          Some un \<Rightarrow> (if un \<noteq> [] then user_key_str scheme un h p else server_str scheme h p)
                        | None \<Rightarrow> server_str scheme h p),
        pc_host = h, pc_port = p, pc_username = url_username r, pc_password = url_password r,
        pc_scheme = scheme\<rparr>)"
    using assms by (rule proxy_parse_Inr)
  obtain r0 where "urlsplit u = Inr r0" "sr_scheme r = sr_scheme r0" using urlparse_split[OF r(1)] by blast
  then have sch: "scheme_ok (if sr_scheme r = [] then ''http'' else sr_scheme r)"
    using urlsplit_scheme scheme_ok_http by auto
  have "host_ok h" using hostname_ok r(1,2) .
  moreover have "0 < p" using url_port_range[OF r(4)] r(5) by simp
  ultimately show ?thesis using sch c r by (simp add: Let_def)
qed

lemma reparse_host_shorter:
  assumes s: "scheme_ok s" and h: "host_ok h" "CHR '']'' \<notin> set h" "CHR '':'' \<in> set h" and p: "0 < p"
    and r: "urlparse (server_str s h p) = Inr r'" and hn: "url_hostname r' = Some h'"
  shows "length h' < length h"
proof -
  let ?x = "h @ CHR '':'' # int_str p"
  have ds: "\<forall>c \<in> set (int_str p). c \<notin> set '':@[]%/?#'' \<and> nt c" using digits_no_delims p by (simp add: int_str_pos)
  have hc: "\<forall>c \<in> set h. c \<notin> set ''/?#@'' \<and> nt c" using h(1) by (simp add: host_ok_def)
  obtain r0 where r0: "urlsplit (s @ ''://'' @ ?x) = Inr r0" "sr_netloc r' = sr_netloc r0"
    using urlparse_split[OF r[unfolded server_str_def]] by auto
  have "filter nt ?x = ?x" using ds hc by (auto simp: filter_id_conv)
  moreover have "split_netloc ?x = (?x, [])" using ds hc by (intro split_netloc_all) auto
  ultimately have n: "sr_netloc r' = ?x" using urlsplit_auth_Inr[OF s r0(1)] r0(2) by simp
  have "brackets_ok ?x" using urlsplit_brackets[OF r0(1)] r0(2) n by simp
  then have nb: "CHR ''['' \<notin> set ?x" using h(2) ds by (auto simp: brackets_ok_def)
  have na: "CHR ''@'' \<notin> set ?x" using hc ds by auto
  have "fst (url_hostinfo r') = takeWhile (\<lambda>c. c \<noteq> CHR '':'') h"
    using n nb na h(3) by (simp add: url_hostinfo_def py_rpartition_none py_partition_none py_partition_def Let_def
        takeWhile_append1)
  moreover have "length (takeWhile (\<lambda>c. c \<noteq> CHR '':'') h) < length h"
  proof -
    have "takeWhile (\<lambda>c. c \<noteq> CHR '':'') h \<noteq> h" using h(3) by (auto simp: takeWhile_eq_all_conv)
    then show ?thesis by (metis le_neq_implies_less length_takeWhile_le takeWhile_eq_take take_all_iff)
  qed
  ultimately show ?thesis using hn host_lower_length by (auto simp: url_hostname_def Let_def split: if_splits)
qed

text \<open>
  C25: an IPv6 proxy loses its brackets. A host that \<open>parse\<close> returns with a
  \<open>:\<close> in it can only come from a bracketed netloc, and \<open>server\<close> writes it
  without the brackets (\<open>f"{scheme}://{host}:{port}"\<close>). Parsing that
  \<open>server\<close> again, as the browser argument and the pool's key are read,
  either raises or yields a host cut at its first \<open>:\<close>, never the host itself.
\<close>

theorem ipv6_server_unparsable:
  assumes "proxy_parse u = Inr c" and "CHR '':'' \<in> set (pc_host c)"
  shows "case proxy_parse (pc_server c) of Inl _ \<Rightarrow> True | Inr c' \<Rightarrow> length (pc_host c') < length (pc_host c)"
proof (cases "proxy_parse (pc_server c)")
  case (Inr c')
  obtain r where r: "url_hostname r = Some (pc_host c)" "scheme_ok (pc_scheme c)" "host_ok (pc_host c)"
    "0 < pc_port c" "pc_server c = server_str (pc_scheme c) (pc_host c) (pc_port c)"
    using proxy_parse_shape[OF assms(1)] by blast
  obtain r' where r': "urlparse (pc_server c) = Inr r'" "url_hostname r' = Some (pc_host c')"
    using proxy_parse_shape[OF Inr] by blast
  have "CHR '']'' \<notin> set (pc_host c)" using hostname_colon_no_bracket[OF r(1) assms(2)] .
  then show ?thesis using reparse_host_shorter[OF r(2,3) _ assms(2) r(4)] r' r(5) Inr by simp
qed simp

lemma ipv6_server_unparsable_witness:
  "proxy_parse ''http://[::1]:8080'' =
     Inr \<lparr>pc_server = ''http://::1:8080'', pc_proxy_key = ''http://::1:8080'', pc_host = ''::1'', pc_port = 8080,
          pc_username = None, pc_password = None, pc_scheme = ''http''\<rparr> \<and> CHR '':'' \<in> set ''::1'' \<and>
   proxy_parse ''http://::1:8080'' = Inl ValueError"
proof -
  have p: "proxy_parse ''http://[::1]:8080'' =
     Inr \<lparr>pc_server = ''http://::1:8080'', pc_proxy_key = ''http://::1:8080'', pc_host = ''::1'', pc_port = 8080,
          pc_username = None, pc_password = None, pc_scheme = ''http''\<rparr>" by (simp add: proxy_defs)
  have "proxy_parse ''http://::1:8080'' = Inl ValueError" by (simp add: proxy_defs)
  then show ?thesis using ipv6_server_unparsable[OF p] p by simp
qed

end
