(* ===== verification/CookieManager.thy ===== *)
theory CookieManager
  imports ProxyConfig
begin

text \<open>
  \<open>src/proxy_service/cookie_manager.py\<close>: the cookie store keyed by
  \<open>(domain, proxy_key)\<close>. Every method runs its dictionary work under one
  \<open>asyncio.Lock\<close> without awaiting inside, so each is one atomic step on the
  state; the lock itself is not modelled.
\<close>

type_synonym cookie = json
type_synonym cookie_key = "string \<times> string option"

record cookie_manager =
  cm_cookies :: "(cookie_key, cookie list) pydict"

definition cm_init :: cookie_manager where
  "cm_init = \<lparr>cm_cookies = []\<rparr>"

text \<open>\<open>url.startswith(("http://", "https://"))\<close>\<close>

definition has_http_prefix :: "string \<Rightarrow> bool" where
  "has_http_prefix url \<longleftrightarrow> take 7 url = ''http://'' \<or> take 8 url = ''https://''"

text \<open>\<open>get_domain\<close>: \<open>ValueError\<close> when \<open>urlparse\<close> raises.\<close>

definition get_domain :: "string \<Rightarrow> py_exc + string" where
  "get_domain url =
     (let url' = (if has_http_prefix url then url else ''https://'' @ url) in
      case urlparse url' of
        Inl e \<Rightarrow> Inl e
      | Inr r \<Rightarrow> Inr (if sr_netloc r \<noteq> [] then sr_netloc r else hd (py_split CHR ''/'' (sr_path r))))"

text \<open>\<open>_make_key\<close>: a \<open>ProxyConfig\<close> is always true, so \<open>proxy.proxy_key if proxy\<close> reads the key.\<close>

definition make_key :: "string \<Rightarrow> proxy_config option \<Rightarrow> py_exc + cookie_key" where
  "make_key url proxy =
     (case get_domain url of
        Inl e \<Rightarrow> Inl e
      | Inr d \<Rightarrow> Inr (d, map_option pc_proxy_key proxy))"

definition get_cookies :: "string \<Rightarrow> proxy_config option \<Rightarrow> cookie_manager \<Rightarrow> py_exc + cookie list" where
  "get_cookies url proxy st =
     (case make_key url proxy of
        Inl e \<Rightarrow> Inl e
      | Inr k \<Rightarrow> Inr (case map_of (cm_cookies st) k of Some cs \<Rightarrow> cs | None \<Rightarrow> []))"

definition save_cookies ::
  "string \<Rightarrow> cookie list \<Rightarrow> proxy_config option \<Rightarrow> cookie_manager \<Rightarrow> py_exc + cookie_manager" where
  "save_cookies url cs proxy st =
     (case make_key url proxy of
        Inl e \<Rightarrow> Inl e
      | Inr k \<Rightarrow> Inr (st\<lparr>cm_cookies := AList.update k cs (cm_cookies st)\<rparr>))"

text \<open>The loop \<open>for k in keys_to_remove: self._cookies.pop(k, None)\<close>.\<close>

definition pop_keys :: "('k, 'v) pydict \<Rightarrow> 'k list \<Rightarrow> ('k, 'v) pydict" where
  "pop_keys d ks = foldl (\<lambda>d k. AList.delete k d) d ks"

text \<open>\<open>clear_cookies\<close>, its four branches in the order of the code.\<close>

definition clear_cookies ::
  "string option \<Rightarrow> proxy_config option \<Rightarrow> cookie_manager \<Rightarrow> py_exc + cookie_manager" where
  "clear_cookies url proxy st =
     (case (url, proxy) of
        (None, None) \<Rightarrow> Inr (st\<lparr>cm_cookies := []\<rparr>)
      | (Some u, Some p) \<Rightarrow>
          (case make_key u (Some p) of
             Inl e \<Rightarrow> Inl e
           | Inr k \<Rightarrow> Inr (st\<lparr>cm_cookies := AList.delete k (cm_cookies st)\<rparr>))
      | (Some u, None) \<Rightarrow>
          (case get_domain u of
             Inl e \<Rightarrow> Inl e
           | Inr d \<Rightarrow>
               Inr (st\<lparr>cm_cookies := pop_keys (cm_cookies st) (filter (\<lambda>k. fst k = d) (map fst (cm_cookies st)))\<rparr>))
      | (None, Some p) \<Rightarrow>
          (let pk = Some (pc_proxy_key p) in
           Inr (st\<lparr>cm_cookies := pop_keys (cm_cookies st) (filter (\<lambda>k. snd k = pk) (map fst (cm_cookies st)))\<rparr>)))"

definition list_keys :: "cookie_manager \<Rightarrow> cookie_key list" where
  "list_keys st = map fst (cm_cookies st)"

text \<open>\<open>list_domains\<close> returns \<open>list(set(...))\<close>, whose order Python leaves open: a set.\<close>

definition list_domains :: "cookie_manager \<Rightarrow> string set" where
  "list_domains st = fst ` set (list_keys st)"

section \<open>Lemmas\<close>

lemma pop_keys_eq: "pop_keys d ks = filter (\<lambda>p. fst p \<notin> set ks) d"
  by (induction ks arbitrary: d) (auto simp: pop_keys_def AList.delete_eq intro: filter_cong)

lemma pop_keys_filter: "pop_keys d (filter P (map fst d)) = filter (\<lambda>p. \<not> P (fst p)) d"
  by (auto simp: pop_keys_eq intro: filter_cong)

lemma dict_wf_filter [simp, pydict_simps]: "dict_wf d \<Longrightarrow> dict_wf (filter P d)"
  by (simp add: dict_wf_def distinct_map_filter)


lemma map_of_filter_fst: "map_of (filter (\<lambda>p. P (fst p)) d) = (\<lambda>k. if P k then map_of d k else None)"
  by (induction d) (auto simp: fun_eq_iff)


theorem clear_by_proxy:
  "\<exists>st'. clear_cookies None (Some p) st = Inr st' \<and>
     map_of (cm_cookies st') = (\<lambda>k. if snd k = Some (pc_proxy_key p) then None else map_of (cm_cookies st) k)"
  using map_of_filter_fst[where P = "\<lambda>k. \<not> snd k = Some (pc_proxy_key p)" and d = "cm_cookies st"]
  by (auto simp: clear_cookies_def pop_keys_filter)

lemma urlparse_http_https:
  "urlparse (''http://'' @ x) = map_sum id (\<lambda>r. r\<lparr>sr_scheme := ''http''\<rparr>) (urlparse (''https://'' @ x))"
  by (auto simp: urlparse_def urlsplit_def url_clean_def py_partition_def Let_def uses_params_def
      scheme_char_def is_alpha_char_def py_lower_def lower_char_def split: prod.split sum.split)


lemma split_netloc_stop:
  "\<forall>c \<in> set a. c \<notin> set ''/?#'' \<Longrightarrow> c \<in> set ''/?#'' \<Longrightarrow> split_netloc (a @ c # b) = (a, c # b)"
  by (simp add: split_netloc_def takeWhile_append2 dropWhile_append2)

lemma scheme_chars_safe:
  "\<forall>c \<in> set s. scheme_char c \<Longrightarrow> \<forall>c \<in> set s. c \<notin> set '':/?#[]'' \<and> c \<notin> {CHR 0x09, CHR 0x0D, CHR 0x0A}"
  by (auto simp: scheme_char_def is_alpha_char_def is_digit_char_def)

lemma prefix_sep_eq:
  assumes "take n (s @ c # r) = p @ c # q" "length (p @ c # q) = n" "c \<notin> set s" "c \<notin> set p"
  shows "s = p"
proof -
  have "s @ c # r = p @ c # (q @ drop n (s @ c # r))"
    using assms(1) append_take_drop_id[of n "s @ c # r"] by (metis append.assoc append_Cons)
  then show ?thesis using append_sep_first[OF assms(3,4)] by blast
qed


lemmas cookie_defs = get_cookies_def save_cookies_def clear_cookies_def make_key_def get_domain_def
  has_http_prefix_def url_defs Let_def cm_init_def

section \<open>Properties\<close>

text \<open>
  C27: cookies saved for a URL and a proxy are the cookies read back for that
  URL and any proxy equal to it by \<open>__eq__\<close> (here: the same proxy with another
  password).
\<close>

theorem save_get_roundtrip:
  assumes "save_cookies u cs p st = Inr st'" and "rel_option proxy_eq p p'"
  shows "get_cookies u p' st' = Inr cs"
proof -
  have "map_option pc_proxy_key p = map_option pc_proxy_key p'"
    using assms(2) by (cases p; cases p') (auto simp: proxy_eq_def)
  then show ?thesis using assms(1)
    by (auto simp: save_cookies_def get_cookies_def make_key_def update_conv' split: sum.splits)
qed

lemma save_get_roundtrip_witness:
  "save_cookies ''https://a.com/x'' [JObj [(''name'', JStr ''sid''), (''value'', JStr ''1'')]] (Some \<lparr>pc_server = ''http://h.com:3128'', pc_proxy_key = ''http://u@h.com:3128'',
       pc_host = ''h.com'', pc_port = 3128, pc_username = Some ''u'', pc_password = Some ''a'',
       pc_scheme = ''http''\<rparr>) cm_init = Inr \<lparr>cm_cookies = [((''a.com'', Some ''http://u@h.com:3128''), [JObj [(''name'', JStr ''sid''), (''value'', JStr ''1'')]])]\<rparr> \<and>
   rel_option proxy_eq (Some \<lparr>pc_server = ''http://h.com:3128'', pc_proxy_key = ''http://u@h.com:3128'',
       pc_host = ''h.com'', pc_port = 3128, pc_username = Some ''u'', pc_password = Some ''a'',
       pc_scheme = ''http''\<rparr>) (Some \<lparr>pc_server = ''http://h.com:3128'', pc_proxy_key = ''http://u@h.com:3128'',
       pc_host = ''h.com'', pc_port = 3128, pc_username = Some ''u'', pc_password = Some ''b'',
       pc_scheme = ''http''\<rparr>) \<and> get_cookies ''https://a.com/x'' (Some \<lparr>pc_server = ''http://h.com:3128'', pc_proxy_key = ''http://u@h.com:3128'',
       pc_host = ''h.com'', pc_port = 3128, pc_username = Some ''u'', pc_password = Some ''b'',
       pc_scheme = ''http''\<rparr>) \<lparr>cm_cookies = [((''a.com'', Some ''http://u@h.com:3128''), [JObj [(''name'', JStr ''sid''), (''value'', JStr ''1'')]])]\<rparr> = Inr [JObj [(''name'', JStr ''sid''), (''value'', JStr ''1'')]]"
proof -
  have s: "save_cookies ''https://a.com/x'' [JObj [(''name'', JStr ''sid''), (''value'', JStr ''1'')]] (Some \<lparr>pc_server = ''http://h.com:3128'', pc_proxy_key = ''http://u@h.com:3128'',
       pc_host = ''h.com'', pc_port = 3128, pc_username = Some ''u'', pc_password = Some ''a'',
       pc_scheme = ''http''\<rparr>) cm_init = Inr \<lparr>cm_cookies = [((''a.com'', Some ''http://u@h.com:3128''), [JObj [(''name'', JStr ''sid''), (''value'', JStr ''1'')]])]\<rparr>"
    by (simp add: cookie_defs)
  have e: "rel_option proxy_eq (Some \<lparr>pc_server = ''http://h.com:3128'', pc_proxy_key = ''http://u@h.com:3128'',
       pc_host = ''h.com'', pc_port = 3128, pc_username = Some ''u'', pc_password = Some ''a'',
       pc_scheme = ''http''\<rparr>) (Some \<lparr>pc_server = ''http://h.com:3128'', pc_proxy_key = ''http://u@h.com:3128'',
       pc_host = ''h.com'', pc_port = 3128, pc_username = Some ''u'', pc_password = Some ''b'',
       pc_scheme = ''http''\<rparr>)" by (simp add: proxy_eq_def)
  show ?thesis using save_get_roundtrip[OF s e] s e by simp
qed

text \<open>
  The store stays a dictionary: saving and every branch of clearing keep
  its keys distinct.
\<close>

theorem cookie_ops_wf:
  assumes "dict_wf (cm_cookies st)"
  shows "(save_cookies u cs p st = Inr st1 \<longrightarrow> dict_wf (cm_cookies st1)) \<and>
         (clear_cookies uo po st = Inr st2 \<longrightarrow> dict_wf (cm_cookies st2))"
  using assms by (auto simp: save_cookies_def clear_cookies_def pop_keys_filter Let_def
                     split: sum.splits option.splits)

text \<open>
  C28: \<open>get_domain\<close> reads \<open>http://x\<close>, \<open>https://x\<close> and a bare \<open>x\<close> (one that
  starts with neither prefix) alike, so the three share one cookie key.
\<close>

theorem get_domain_scheme_equiv:
  assumes "\<not> has_http_prefix x"
  shows "get_domain (''http://'' @ x) = get_domain x \<and> get_domain (''https://'' @ x) = get_domain x"
  using assms urlparse_http_https[of x]
  by (auto simp: get_domain_def has_http_prefix_def split: sum.split)


lemma get_domain_scheme_equiv_witness:
  "\<not> has_http_prefix ''a.com/login'' \<and>
   get_domain ''http://a.com/login'' = get_domain ''a.com/login'' \<and>
   get_domain ''https://a.com/login'' = get_domain ''a.com/login''"
proof -
  have "\<not> has_http_prefix ''a.com/login''" by (simp add: has_http_prefix_def)
  from get_domain_scheme_equiv[OF this] show ?thesis using \<open>\<not> has_http_prefix ''a.com/login''\<close> by simp
qed

text \<open>
  \<open>clear_cookies(url)\<close> without a proxy removes the entries of that URL's
  domain under every proxy and keeps all others.
\<close>

theorem clear_by_domain:
  assumes "clear_cookies (Some u) None st = Inr st'"
  shows "\<exists>d. get_domain u = Inr d \<and>
           map_of (cm_cookies st') = (\<lambda>k. if fst k = d then None else map_of (cm_cookies st) k)"
proof -
  obtain d where d: "get_domain u = Inr d" "cm_cookies st' = filter (\<lambda>p. \<not> fst (fst p) = d) (cm_cookies st)"
    using assms by (auto simp: clear_cookies_def pop_keys_filter split: sum.splits)
  show ?thesis using d map_of_filter_fst[where P = "\<lambda>k. \<not> fst k = d" and d = "cm_cookies st"] by auto
qed

lemma clear_by_domain_witness:
  "clear_cookies (Some ''https://a.com/login'') None \<lparr>cm_cookies = [((''a.com'', Some ''http://u@h.com:3128''), [JObj [(''name'', JStr ''sid''), (''value'', JStr ''1'')]]), ((''b.com'', None), [])]\<rparr> = Inr \<lparr>cm_cookies = [((''b.com'', None), [])]\<rparr> \<and>
   (\<exists>d. get_domain ''https://a.com/login'' = Inr d \<and>
      map_of (cm_cookies \<lparr>cm_cookies = [((''b.com'', None), [])]\<rparr>) = (\<lambda>k. if fst k = d then None else map_of (cm_cookies \<lparr>cm_cookies = [((''a.com'', Some ''http://u@h.com:3128''), [JObj [(''name'', JStr ''sid''), (''value'', JStr ''1'')]]), ((''b.com'', None), [])]\<rparr>) k))"
proof -
  have c: "clear_cookies (Some ''https://a.com/login'') None \<lparr>cm_cookies = [((''a.com'', Some ''http://u@h.com:3128''), [JObj [(''name'', JStr ''sid''), (''value'', JStr ''1'')]]), ((''b.com'', None), [])]\<rparr> = Inr \<lparr>cm_cookies = [((''b.com'', None), [])]\<rparr>"
    by (simp add: cookie_defs pop_keys_def)
  show ?thesis using clear_by_domain[OF c] c by blast
qed

text \<open>
  C29: \<open>get_domain\<close> only adds \<open>https://\<close> when the URL does not start with the
  lower-case \<open>http://\<close> or \<open>https://\<close>, so a URL with any other scheme
  (\<open>HTTP://\<close>, \<open>ftp://\<close>, ...) gets the domain \<open>"<scheme>:"\<close>: all sites under
  that scheme share one cookie entry.
\<close>

theorem get_domain_other_scheme:
  assumes s: "\<forall>c \<in> set s. scheme_char c" "s \<noteq> ''http''" "s \<noteq> ''https''"
  shows "get_domain (s @ ''://'' @ x) = Inr (s @ '':'')"
proof -
  have sc: "\<forall>c \<in> set s. c \<notin> set '':/?#[]'' \<and> c \<notin> {CHR 0x09, CHR 0x0D, CHR 0x0A}"
    using scheme_chars_safe[OF s(1)] .
  then have colon: "CHR '':'' \<notin> set s" by auto
  have "\<not> take 7 (s @ CHR '':'' # ''//'' @ x) = ''http'' @ CHR '':'' # ''//''"
    using prefix_sep_eq[of 7 s "CHR '':''" "''//'' @ x" "''http''" "''//''"] colon s(2) by auto
  moreover have "\<not> take 8 (s @ CHR '':'' # ''//'' @ x) = ''https'' @ CHR '':'' # ''//''"
    using prefix_sep_eq[of 8 s "CHR '':''" "''//'' @ x" "''https''" "''//''"] colon s(3) by auto
  ultimately have np: "\<not> has_http_prefix (s @ ''://'' @ x)" by (simp add: has_http_prefix_def)
  have clean: "url_clean (''https://'' @ s @ ''://'' @ x) =
      ''https://'' @ s @ ''://'' @ filter (\<lambda>c. c \<notin> {CHR 0x09, CHR 0x0D, CHR 0x0A}) x"
    using url_clean_scheme[of "''https''" "''://'' @ s @ ''://'' @ x"] sc
    by (simp add: scheme_ok_def scheme_char_def is_alpha_char_def py_lower_def lower_char_def filter_id_conv)
  have net: "split_netloc (s @ CHR '':'' # ''//'' @ y) = (s @ '':'', ''//'' @ y)" for y
    using split_netloc_stop[of "s @ '':''" "CHR ''/''" "CHR ''/'' # y"] sc by simp
  have nb: "CHR ''['' \<notin> set s" "CHR '']'' \<notin> set s" using sc by auto
  show ?thesis using np clean net nb
    by (auto simp: get_domain_def urlparse_def urlsplit_def py_partition_def Let_def
        scheme_char_def is_alpha_char_def py_lower_def lower_char_def split: prod.split sum.split)
qed


lemma get_domain_other_scheme_witness:
  "get_domain ''HTTP://shop.example.com/cart'' = Inr ''HTTP:'' \<and>
   get_domain ''HTTP://bank.example.org/'' = Inr ''HTTP:''"
proof -
  have s: "\<forall>c \<in> set ''HTTP''. scheme_char c" "''HTTP'' \<noteq> ''http''" "''HTTP'' \<noteq> ''https''"
    by (simp_all add: scheme_char_def is_alpha_char_def)
  show ?thesis using get_domain_other_scheme[OF s, of "''shop.example.com/cart''"]
      get_domain_other_scheme[OF s, of "''bank.example.org/''"] by simp
qed

end
