(* ===== verification/Fetcher.thy ===== *)
theory Fetcher
  imports CookieManager
begin

text \<open>
  \<open>src/proxy_service/fetcher.py\<close>: the cookie hand-over around one page load
  (\<open>_load_cookies\<close>, \<open>_save_cookies\<close>), \<open>_do_fetch\<close> with the outcome of the pool
  and of the page loader as its input, \<open>fetch\<close>'s overall timeout and
  \<open>FetchResult.to_dict\<close>. Times are whole seconds.
\<close>

section \<open>Data\<close>

text \<open>The fields of \<open>cdp.network.Cookie\<close> that \<open>_save_cookies\<close> reads.\<close>

record cdp_cookie =
  ck_name :: string
  ck_value :: string
  ck_domain :: string
  ck_path :: string
  ck_secure :: bool
  ck_http_only :: bool
  ck_expires :: int

text \<open>\<open>cdp.network.CookieParam\<close> as \<open>_load_cookies\<close> builds it; \<open>JNull\<close> is an argument
  passed as \<open>None\<close>.\<close>

record cookie_param =
  cp_name :: json
  cp_value :: json
  cp_domain :: json
  cp_path :: json
  cp_secure :: json
  cp_http_only :: json
  cp_expires :: json

text \<open>\<open>LoadResult\<close> of the page loader (outside \<open>src/\<close>): the fields \<open>_do_fetch\<close> copies.\<close>

record load_result =
  lr_success :: bool
  lr_html :: string
  lr_final_url :: string
  lr_error :: "string option"
  lr_cf_detected :: bool
  lr_cf_solved :: bool
  lr_cf_retries :: int
  lr_status :: string

record fetch_result =
  fr_success :: bool
  fr_html :: string
  fr_url :: string
  fr_elapsed :: int
  fr_error :: "string option"
  fr_cf_detected :: bool
  fr_cf_solved :: bool
  fr_cf_retries :: int
  fr_status :: string

text \<open>\<open>FetchResult(success=False, html="", url=url, elapsed=elapsed, error=...)\<close> with
  the dataclass defaults for the other fields.\<close>

definition fetch_failure :: "string \<Rightarrow> int \<Rightarrow> string \<Rightarrow> fetch_result" where
  "fetch_failure url elapsed err =
     \<lparr>fr_success = False, fr_html = [], fr_url = url, fr_elapsed = elapsed, fr_error = Some err,
      fr_cf_detected = False, fr_cf_solved = False, fr_cf_retries = 0, fr_status = ''ok''\<rparr>"

section \<open>Cookies between the store and the tab\<close>

text \<open>\<open>c.get(k)\<close> on a stored cookie.\<close>

definition jget :: "jobj \<Rightarrow> string \<Rightarrow> json" where
  "jget kv k = (case map_of kv k of Some v \<Rightarrow> v | None \<Rightarrow> JNull)"

text \<open>One iteration of \<open>_load_cookies\<close>' loop: \<open>None\<close> when \<open>c["name"]\<close> or
  \<open>c["value"]\<close> raises.\<close>

definition param_of_cookie :: "cookie \<Rightarrow> cookie_param option" where
  "param_of_cookie c =
     (case c of
        JObj kv \<Rightarrow>
          (case (map_of kv ''name'', map_of kv ''value'') of
             (Some n, Some v) \<Rightarrow>
               Some \<lparr>cp_name = n, cp_value = v, cp_domain = jget kv ''domain'', cp_path = jget kv ''path'',
                     cp_secure = jget kv ''secure'', cp_http_only = jget kv ''http_only'',
                     cp_expires = (if py_truthy (jget kv ''expires'') then jget kv ''expires'' else JNull)\<rparr>
           | _ \<Rightarrow> None)
      | _ \<Rightarrow> None)"

text \<open>\<open>_load_cookies\<close>: the parameters sent with \<open>storage.set_cookies\<close> (\<open>[]\<close>: nothing
  sent). Any exception, from the store or from one cookie, is logged and swallowed.\<close>

definition load_cookies :: "cookie_manager \<Rightarrow> string \<Rightarrow> proxy_config option \<Rightarrow> cookie_param list" where
  "load_cookies st url p =
     (case get_cookies url p st of
        Inl _ \<Rightarrow> []
      | Inr cs \<Rightarrow> (case those (map param_of_cookie cs) of Some ps \<Rightarrow> ps | None \<Rightarrow> []))"

text \<open>The dictionary \<open>_save_cookies\<close> stores for one cookie.\<close>

definition cookie_dict :: "cdp_cookie \<Rightarrow> cookie" where
  "cookie_dict c =
     JObj [(''name'', JStr (ck_name c)), (''value'', JStr (ck_value c)), (''domain'', JStr (ck_domain c)),
           (''path'', JStr (ck_path c)), (''secure'', JBool (ck_secure c)),
           (''http_only'', JBool (ck_http_only c)), (''expires'', JInt (ck_expires c))]"

text \<open>\<open>_save_cookies\<close>: the tab's cookies (\<open>None\<close>: \<open>storage.get_cookies\<close> raised) are
  stored under the URL and proxy; every exception is swallowed.\<close>

definition save_tab_cookies ::
  "cookie_manager \<Rightarrow> string \<Rightarrow> proxy_config option \<Rightarrow> cdp_cookie list option \<Rightarrow> cookie_manager" where
  "save_tab_cookies st url p tc =
     (case tc of
        None \<Rightarrow> st
      | Some cs \<Rightarrow>
          (if cs = [] then st
           else case save_cookies url (map cookie_dict cs) p st of Inl _ \<Rightarrow> st | Inr st' \<Rightarrow> st'))"

section \<open>One fetch\<close>

text \<open>How far \<open>_do_fetch\<close> gets: \<open>browser_pool.acquire\<close> raises, the page loader
  raises, or it returns a result and the tab's cookies are read.\<close>

datatype fetch_step =
    AcquireFailed py_exc
  | LoadFailed py_exc
  | Loaded load_result "cdp_cookie list option"

text \<open>\<open>_do_fetch\<close>: the cookies put into the tab, the store afterwards and the result.
  \<open>msg\<close> is \<open>str(e)\<close>; \<open>elapsed\<close> is \<open>time.time() - start_time\<close>. The tab's release
  in \<open>finally\<close> is the pool's \<open>EvRelease\<close>.\<close>

definition do_fetch ::
  "(py_exc \<Rightarrow> string) \<Rightarrow> cookie_manager \<Rightarrow> string \<Rightarrow> proxy_config option \<Rightarrow> fetch_step \<Rightarrow> int \<Rightarrow>
     cookie_param list \<times> cookie_manager \<times> fetch_result" where
  "do_fetch msg st url p step elapsed =
     (case step of
        AcquireFailed e \<Rightarrow> ([], st, fetch_failure url elapsed (msg e))
      | LoadFailed e \<Rightarrow> (load_cookies st url p, st, fetch_failure url elapsed (msg e))
      | Loaded lr tc \<Rightarrow>
          (load_cookies st url p,
           (if lr_success lr then save_tab_cookies st url p tc else st),
           \<lparr>fr_success = lr_success lr, fr_html = lr_html lr, fr_url = lr_final_url lr, fr_elapsed = elapsed,
            fr_error = lr_error lr, fr_cf_detected = lr_cf_detected lr, fr_cf_solved = lr_cf_solved lr,
            fr_cf_retries = lr_cf_retries lr, fr_status = lr_status lr\<rparr>))"

text \<open>\<open>str()\<close> of a float holding whole seconds.\<close>

definition secs_str :: "int \<Rightarrow> string" where
  "secs_str n = int_str n @ ''.0''"

text \<open>How \<open>asyncio.wait_for(self._do_fetch(...), timeout=total_timeout)\<close> ends.\<close>

datatype fetch_end =
    Finished "cookie_param list \<times> cookie_manager \<times> fetch_result"
  | TimedOut cookie_manager int
  | Raised cookie_manager py_exc int

text \<open>\<open>Fetcher.fetch\<close>: a missing or zero timeout is the default; the overall limit is
  the page timeout plus \<open>EXTRA_TIMEOUT_BUFFER\<close>; \<open>run\<close> is the outcome under that
  limit. It never raises.\<close>

definition fetcher_fetch ::
  "(py_exc \<Rightarrow> string) \<Rightarrow> int \<Rightarrow> string \<Rightarrow> int option \<Rightarrow> (int \<Rightarrow> fetch_end) \<Rightarrow> cookie_manager \<times> fetch_result" where
  "fetcher_fetch msg default_timeout url timeout run =
     (let t = (case timeout of Some x \<Rightarrow> if x = 0 then default_timeout else x | None \<Rightarrow> default_timeout);
          total = t + 30
      in case run total of
           Finished (_, st, r) \<Rightarrow> (st, r)
         | TimedOut st elapsed \<Rightarrow> (st, fetch_failure url elapsed (''Total timeout ('' @ secs_str total @ ''s) exceeded''))
         | Raised st e elapsed \<Rightarrow> (st, fetch_failure url elapsed (msg e)))"

text \<open>\<open>FetchResult.to_dict\<close>.\<close>

definition to_dict :: "fetch_result \<Rightarrow> json" where
  "to_dict r =
     JObj ([(''success'', JBool (fr_success r)), (''html'', JStr (fr_html r)), (''url'', JStr (fr_url r)),
            (''elapsed'', JInt (fr_elapsed r))] @
           (case fr_error r of Some e \<Rightarrow> if e \<noteq> [] then [(''error'', JStr e)] else [] | None \<Rightarrow> []) @
           (if fr_status r \<noteq> ''ok'' then [(''status'', JStr (fr_status r))] else []) @
           [(''cloudflare'', JObj [(''detected'', JBool (fr_cf_detected r)), (''solved'', JBool (fr_cf_solved r)),
                                   (''retries'', JInt (fr_cf_retries r))])])"

section \<open>Lemmas\<close>

lemma proxy_eq_key: "rel_option proxy_eq p q \<Longrightarrow> map_option pc_proxy_key p = map_option pc_proxy_key q"
  by (cases p; cases q) (auto simp: proxy_eq_def)

lemma save_cookies_Inr: "get_domain url = Inr d \<Longrightarrow> \<exists>st'. save_cookies url cs p st = Inr st'"
  by (simp add: save_cookies_def make_key_def)

lemma get_after_save:
  "save_cookies url cs p st = Inr st' \<Longrightarrow> rel_option proxy_eq p q \<Longrightarrow> get_cookies url q st' = Inr cs"
  using proxy_eq_key[of p q] by (auto simp: save_cookies_def get_cookies_def make_key_def update_conv' split: sum.splits)

lemma param_of_cookie_dict:
  "param_of_cookie (cookie_dict c) =
     Some \<lparr>cp_name = JStr (ck_name c), cp_value = JStr (ck_value c), cp_domain = JStr (ck_domain c),
           cp_path = JStr (ck_path c), cp_secure = JBool (ck_secure c), cp_http_only = JBool (ck_http_only c),
           cp_expires = (if ck_expires c \<noteq> 0 then JInt (ck_expires c) else JNull)\<rparr>"
  by (simp add: param_of_cookie_def cookie_dict_def jget_def)

lemma those_map_Some: "(\<And>x. f x = Some (g x)) \<Longrightarrow> those (map f xs) = Some (map g xs)"
  by (induction xs) auto

section \<open>Properties\<close>

text \<open>
  C39: cookie persistence across fetches. After a fetch whose page loaded and
  whose tab held cookies, the next fetch of the same URL through a proxy equal
  by \<open>__eq__\<close> puts those cookies into its tab, field by field; an \<open>expires\<close> of
  0 comes back as no expiry.
\<close>

theorem fetch_cookies_roundtrip:
  assumes "do_fetch msg st url p (Loaded lr (Some cs)) el = (ps, st', r)" and "lr_success lr" and "cs \<noteq> []"
    and "get_domain url = Inr d" and "rel_option proxy_eq p q"
  shows "load_cookies st' url q =
           map (\<lambda>c. \<lparr>cp_name = JStr (ck_name c), cp_value = JStr (ck_value c), cp_domain = JStr (ck_domain c),
                     cp_path = JStr (ck_path c), cp_secure = JBool (ck_secure c), cp_http_only = JBool (ck_http_only c),
                     cp_expires = (if ck_expires c \<noteq> 0 then JInt (ck_expires c) else JNull)\<rparr>) cs"
proof -
  obtain st'' where s: "save_cookies url (map cookie_dict cs) p st = Inr st''"
    using save_cookies_Inr[OF assms(4)] by blast
  have "st' = st''" using assms(1-3) s by (simp add: do_fetch_def save_tab_cookies_def)
  then have "get_cookies url q st' = Inr (map cookie_dict cs)" using get_after_save[OF s assms(5)] by simp
  then show ?thesis
    by (simp add: load_cookies_def those_map_Some[OF param_of_cookie_dict] comp_def)
qed

lemma fetch_cookies_roundtrip_witness:
  "do_fetch (\<lambda>_. []) cm_init ''https://a.com/x'' None
      (Loaded \<lparr>lr_success = True, lr_html = ''<html/>'', lr_final_url = ''https://a.com/x'', lr_error = None,
               lr_cf_detected = False, lr_cf_solved = False, lr_cf_retries = 0, lr_status = ''ok''\<rparr>
         (Some [\<lparr>ck_name = ''sid'', ck_value = ''1'', ck_domain = ''a.com'', ck_path = ''/'', ck_secure = True,
                 ck_http_only = True, ck_expires = 0\<rparr>])) 2 =
     ([], \<lparr>cm_cookies = [((''a.com'', None), [cookie_dict \<lparr>ck_name = ''sid'', ck_value = ''1'', ck_domain = ''a.com'',
            ck_path = ''/'', ck_secure = True, ck_http_only = True, ck_expires = 0\<rparr>])]\<rparr>,
      \<lparr>fr_success = True, fr_html = ''<html/>'', fr_url = ''https://a.com/x'', fr_elapsed = 2, fr_error = None,
       fr_cf_detected = False, fr_cf_solved = False, fr_cf_retries = 0, fr_status = ''ok''\<rparr>) \<and>
   get_domain ''https://a.com/x'' = Inr ''a.com'' \<and>
   load_cookies \<lparr>cm_cookies = [((''a.com'', None), [cookie_dict \<lparr>ck_name = ''sid'', ck_value = ''1'', ck_domain = ''a.com'',
            ck_path = ''/'', ck_secure = True, ck_http_only = True, ck_expires = 0\<rparr>])]\<rparr> ''https://a.com/x'' None =
     [\<lparr>cp_name = JStr ''sid'', cp_value = JStr ''1'', cp_domain = JStr ''a.com'', cp_path = JStr ''/'',
       cp_secure = JBool True, cp_http_only = JBool True, cp_expires = JNull\<rparr>]"
proof -
  have d: "get_domain ''https://a.com/x'' = Inr ''a.com''" by (simp add: cookie_defs)
  have f: "do_fetch (\<lambda>_. []) cm_init ''https://a.com/x'' None
      (Loaded \<lparr>lr_success = True, lr_html = ''<html/>'', lr_final_url = ''https://a.com/x'', lr_error = None,
               lr_cf_detected = False, lr_cf_solved = False, lr_cf_retries = 0, lr_status = ''ok''\<rparr>
         (Some [\<lparr>ck_name = ''sid'', ck_value = ''1'', ck_domain = ''a.com'', ck_path = ''/'', ck_secure = True,
                 ck_http_only = True, ck_expires = 0\<rparr>])) 2 =
     ([], \<lparr>cm_cookies = [((''a.com'', None), [cookie_dict \<lparr>ck_name = ''sid'', ck_value = ''1'', ck_domain = ''a.com'',
            ck_path = ''/'', ck_secure = True, ck_http_only = True, ck_expires = 0\<rparr>])]\<rparr>,
      \<lparr>fr_success = True, fr_html = ''<html/>'', fr_url = ''https://a.com/x'', fr_elapsed = 2, fr_error = None,
       fr_cf_detected = False, fr_cf_solved = False, fr_cf_retries = 0, fr_status = ''ok''\<rparr>)"
    using d by (simp add: do_fetch_def load_cookies_def save_tab_cookies_def get_cookies_def save_cookies_def
        make_key_def cm_init_def)
  show ?thesis using fetch_cookies_roundtrip[OF f _ _ d, of None] d f by simp
qed

text \<open>
  C40: a fetch that reports failure leaves the cookie store as it was, and when
  the pool or the page loader raised, the result is the failure for the
  requested URL carrying \<open>str(e)\<close>.
\<close>

theorem fetch_failure_keeps_store:
  assumes "do_fetch msg st url p step el = (ps, st', r)" and "\<not> fr_success r"
  shows "st' = st \<and> (\<forall>e. step = AcquireFailed e \<or> step = LoadFailed e \<longrightarrow> r = fetch_failure url el (msg e))"
  using assms by (cases step) (auto simp: do_fetch_def fetch_failure_def)

lemma fetch_failure_keeps_store_witness:
  "do_fetch (\<lambda>_. ''boom'') cm_init ''https://a.com/'' None (LoadFailed TypeError) 5 =
     ([], cm_init, fetch_failure ''https://a.com/'' 5 ''boom'') \<and>
   \<not> fr_success (fetch_failure ''https://a.com/'' 5 ''boom'') \<and>
   cm_init = cm_init \<and> fetch_failure ''https://a.com/'' 5 ''boom'' = fetch_failure ''https://a.com/'' 5 ((\<lambda>_. ''boom'') TypeError)"
proof -
  have f: "do_fetch (\<lambda>_. ''boom'') cm_init ''https://a.com/'' None (LoadFailed TypeError) 5 =
     ([], cm_init, fetch_failure ''https://a.com/'' 5 ''boom'')"
    by (simp add: do_fetch_def load_cookies_def get_cookies_def make_key_def cookie_defs)
  have n: "\<not> fr_success (fetch_failure ''https://a.com/'' 5 ''boom'')" by (simp add: fetch_failure_def)
  show ?thesis using fetch_failure_keeps_store[OF f n] f n by simp
qed

end
