(* ===== verification/BrowserPool.thy ===== *)
theory BrowserPool
  imports ProxyConfig
begin

text \<open>
  \<open>src/proxy_service/browser_pool.py\<close> with the parts of
  \<open>src/proxy_service/main.py\<close> and \<open>src/proxy_service/fetcher.py\<close> that drive it:
  the pool's \<open>asyncio.Semaphore\<close> (CPython 3.11 semantics: a FIFO of waiter
  futures, \<open>release\<close> wakes the first one not yet done), the browsers by proxy
  key under the pool lock, and the health check that restarts browsers outside
  the lock. Concurrency is explicit: the state holds every task between its
  awaits, and an event is one atomic segment of one task; which event happens
  next, and the outcome of each browser call, are the environment's choice.
\<close>

section \<open>State\<close>

text \<open>Where a task of \<open>Fetcher._do_fetch\<close> stands in \<open>BrowserPool.acquire\<close>.\<close>

datatype task_st =
    TWait "proxy_config option"
  | THold "proxy_config option"
  | TCreated "proxy_config option" nat
  | TTab "proxy_config option" nat

record pool =
  pl_max :: int
  pl_args :: "string list"
  pl_max_age :: int
  pl_value :: int
  pl_waiters :: "(nat \<times> bool) list"
  pl_browsers :: "(string option, nat) pydict"
  pl_start_times :: "(string option, int) pydict"
  pl_started :: bool
  pl_launched :: "(nat, string list) pydict"
  pl_stopped :: "nat list"
  pl_next_browser :: nat
  pl_tasks :: "(nat, task_st) pydict"
  pl_restart :: "string option list"

text \<open>\<open>BrowserPool.__init__\<close>; \<open>browser_args or []\<close> is the argument list.\<close>

definition pool_init :: "int \<Rightarrow> string list \<Rightarrow> int \<Rightarrow> pool" where
  "pool_init m args age =
     \<lparr>pl_max = m, pl_args = args, pl_max_age = age, pl_value = m, pl_waiters = [], pl_browsers = [],
      pl_start_times = [], pl_started = False, pl_launched = [], pl_stopped = [], pl_next_browser = 0,
      pl_tasks = [], pl_restart = []\<rparr>"

definition browser_args_with_defaults :: "string list \<Rightarrow> proxy_config option \<Rightarrow> string list" where
  "browser_args_with_defaults args p =
     [''--disable-blink-features=AutomationControlled'', ''--disable-infobars''] @ args @
     (case p of Some q \<Rightarrow> [to_browser_arg q] | None \<Rightarrow> [])"

definition proxy_key_of :: "proxy_config option \<Rightarrow> string option" where
  "proxy_key_of p = map_option pc_proxy_key p"

text \<open>The \<open>/fetch\<close> endpoint's proxy: \<open>None\<close> for a missing or empty string, else
  \<open>ProxyConfig.parse\<close>, whose \<open>ValueError\<close> becomes an HTTP 400 answer.\<close>

definition request_proxy :: "string option \<Rightarrow> py_exc + proxy_config option" where
  "request_proxy r =
     (case r of
        None \<Rightarrow> Inr None
      | Some u \<Rightarrow> (if u = [] then Inr None else (case proxy_parse u of Inl e \<Rightarrow> Inl e | Inr c \<Rightarrow> Inr (Some c))))"

section \<open>The semaphore\<close>

text \<open>\<open>Semaphore.locked\<close>: no permit, or a waiter queued before us.\<close>

definition sem_locked :: "pool \<Rightarrow> bool" where
  "sem_locked s \<longleftrightarrow> pl_value s = 0 \<or> pl_waiters s \<noteq> []"

text \<open>\<open>_wake_up_next\<close>: the first waiter whose future is not done gets the permit.\<close>

fun wake_first :: "(nat \<times> bool) list \<Rightarrow> (nat \<times> bool) list option" where
  "wake_first [] = None"
| "wake_first ((t, d) # ws) =
     (if d then map_option ((#) (t, d)) (wake_first ws) else Some ((t, True) # ws))"

definition sem_wake :: "pool \<Rightarrow> pool" where
  "sem_wake s =
     (case wake_first (pl_waiters s) of
        None \<Rightarrow> s
      | Some ws \<Rightarrow> s\<lparr>pl_value := pl_value s - 1, pl_waiters := ws\<rparr>)"

definition sem_release :: "pool \<Rightarrow> pool" where
  "sem_release s = sem_wake (s\<lparr>pl_value := pl_value s + 1\<rparr>)"

section \<open>Events\<close>

datatype pool_ev =
    EvFetch nat "string option"
  | EvResume nat
  | EvCreate nat int
  | EvCreateFail nat
  | EvTab nat
  | EvTabFail nat
  | EvRelease nat
  | EvCancel nat
  | EvCheck int "string option list"
  | EvRestart
  | EvStop

text \<open>
  \<open>acquire\<close> up to its first suspension: a free permit is taken at once,
  otherwise the task queues a future.
\<close>

definition sem_acquire :: "nat \<Rightarrow> proxy_config option \<Rightarrow> pool \<Rightarrow> pool" where
  "sem_acquire t p s =
     (if \<not> sem_locked s
      then s\<lparr>pl_value := pl_value s - 1, pl_tasks := AList.update t (THold p) (pl_tasks s)\<rparr>
      else s\<lparr>pl_waiters := pl_waiters s @ [(t, False)], pl_tasks := AList.update t (TWait p) (pl_tasks s)\<rparr>)"

text \<open>\<open>_get_or_create_browser\<close> under the pool lock, when \<open>zd.start\<close> succeeds.\<close>

definition get_or_create :: "proxy_config option \<Rightarrow> int \<Rightarrow> pool \<Rightarrow> pool \<times> nat option" where
  "get_or_create p now s =
     (let k = proxy_key_of p;
          s1 = (if k \<in> dict_keys (pl_browsers s) then s
                else s\<lparr>pl_browsers := AList.update k (pl_next_browser s) (pl_browsers s),
                       pl_start_times := AList.update k now (pl_start_times s),
                       pl_started := True,
                       pl_launched := AList.update (pl_next_browser s)
                                        (browser_args_with_defaults (pl_args s) p) (pl_launched s),
                       pl_next_browser := Suc (pl_next_browser s)\<rparr>)
      in (s1, map_of (pl_browsers s1) k))"

text \<open>\<open>_check_and_restart_browsers\<close> under the lock: too old or unhealthy.\<close>

definition restart_keys :: "int \<Rightarrow> string option list \<Rightarrow> pool \<Rightarrow> string option list" where
  "restart_keys now unhealthy s =
     filter (\<lambda>k. now - (case map_of (pl_start_times s) k of Some t0 \<Rightarrow> t0 | None \<Rightarrow> now) > pl_max_age s
                 \<or> k \<in> set unhealthy)
       (map fst (pl_browsers s))"

text \<open>\<open>_restart_browser\<close>: pop the browser and have it stopped.\<close>

definition restart_browser :: "string option \<Rightarrow> pool \<Rightarrow> pool" where
  "restart_browser k s =
     (case map_of (pl_browsers s) k of
        None \<Rightarrow> s
      | Some b \<Rightarrow> s\<lparr>pl_browsers := AList.delete k (pl_browsers s),
                     pl_start_times := AList.delete k (pl_start_times s),
                     pl_stopped := pl_stopped s @ [b]\<rparr>)"

text \<open>
  One event. \<open>None\<close>: the event cannot happen in this state.
  \<^item> \<open>EvFetch t r\<close>: a \<open>/fetch\<close> request with proxy string \<open>r\<close> reaches
    \<open>acquire\<close> (\<open>main.py\<close> 197-203, \<open>_do_fetch\<close> 148, \<open>acquire\<close> 133);
  \<^item> \<open>EvResume t\<close>: a woken waiter runs on after \<open>await fut\<close>;
  \<^item> \<open>EvCreate t now\<close>: \<open>_get_or_create_browser\<close> returns a browser;
  \<^item> \<open>EvCreateFail t\<close>: it raises or times out (lines 157-164);
  \<^item> \<open>EvTab t\<close>, \<open>EvTabFail t\<close>: the new tab and the proxy authentication
    succeed, or one of them raises or times out; a stopped browser opens no tab;
  \<^item> \<open>EvRelease t\<close>: \<open>_do_fetch\<close>'s \<open>finally\<close> calls \<open>release(tab)\<close>;
  \<^item> \<open>EvCancel t\<close>: \<open>Fetcher.fetch\<close>'s \<open>wait_for\<close> cancels the task inside
    \<open>acquire\<close>. A queued future is removed (a woken one hands its permit on,
    as \<open>Semaphore.acquire\<close> does); past the semaphore the \<open>CancelledError\<close>
    passes both \<open>except\<close> clauses, which catch \<open>TimeoutError\<close> and
    \<open>Exception\<close> only, and \<open>tab\<close> is still \<open>None\<close> in \<open>_do_fetch\<close>, so nothing
    releases the permit. (A task that holds its tab is released by the \<open>finally\<close>.)
  \<^item> \<open>EvCheck now u\<close>, \<open>EvRestart\<close>: the health check, \<open>u\<close> the browsers it
    found unhealthy; the restarts run one by one outside the lock;
  \<^item> \<open>EvStop\<close>: \<open>stop()\<close>, which also cancels the health check.
\<close>

fun pool_step :: "pool_ev \<Rightarrow> pool \<Rightarrow> pool option" where
  "pool_step (EvFetch t r) s =
     (if t \<in> dict_keys (pl_tasks s) then None
      else case request_proxy r of Inl _ \<Rightarrow> None | Inr p \<Rightarrow> Some (sem_acquire t p s))"
| "pool_step (EvResume t) s =
     (case map_of (pl_tasks s) t of
        Some (TWait p) \<Rightarrow>
          (if (t, True) \<in> set (pl_waiters s)
           then (let s1 = s\<lparr>pl_waiters := remove1 (t, True) (pl_waiters s),
                            pl_tasks := AList.update t (THold p) (pl_tasks s)\<rparr>
                 in Some (if pl_value s1 > 0 then sem_wake s1 else s1))
           else None)
      | _ \<Rightarrow> None)"
| "pool_step (EvCreate t now) s =
     (case map_of (pl_tasks s) t of
        Some (THold p) \<Rightarrow>
          (case get_or_create p now s of
             (s1, Some b) \<Rightarrow> Some (s1\<lparr>pl_tasks := AList.update t (TCreated p b) (pl_tasks s1)\<rparr>)
           | (_, None) \<Rightarrow> None)
      | _ \<Rightarrow> None)"
| "pool_step (EvCreateFail t) s =
     (case map_of (pl_tasks s) t of
        Some (THold p) \<Rightarrow> Some (sem_release (s\<lparr>pl_tasks := AList.delete t (pl_tasks s)\<rparr>))
      | _ \<Rightarrow> None)"
| "pool_step (EvTab t) s =
     (case map_of (pl_tasks s) t of
        Some (TCreated p b) \<Rightarrow>
          (if b \<in> set (pl_stopped s) then None
           else Some (s\<lparr>pl_tasks := AList.update t (TTab p b) (pl_tasks s)\<rparr>))
      | _ \<Rightarrow> None)"
| "pool_step (EvTabFail t) s =
     (case map_of (pl_tasks s) t of
        Some (TCreated p b) \<Rightarrow> Some (sem_release (s\<lparr>pl_tasks := AList.delete t (pl_tasks s)\<rparr>))
      | _ \<Rightarrow> None)"
| "pool_step (EvRelease t) s =
     (case map_of (pl_tasks s) t of
        Some (TTab p b) \<Rightarrow> Some (sem_release (s\<lparr>pl_tasks := AList.delete t (pl_tasks s)\<rparr>))
      | _ \<Rightarrow> None)"
| "pool_step (EvCancel t) s =
     (case map_of (pl_tasks s) t of
        Some (TWait p) \<Rightarrow>
          (if (t, True) \<in> set (pl_waiters s)
           then Some (sem_release (s\<lparr>pl_waiters := remove1 (t, True) (pl_waiters s),
                                     pl_tasks := AList.delete t (pl_tasks s)\<rparr>))
           else Some (s\<lparr>pl_waiters := remove1 (t, False) (pl_waiters s),
                        pl_tasks := AList.delete t (pl_tasks s)\<rparr>))
      | Some (THold p) \<Rightarrow> Some (s\<lparr>pl_tasks := AList.delete t (pl_tasks s)\<rparr>)
      | Some (TCreated p b) \<Rightarrow> Some (s\<lparr>pl_tasks := AList.delete t (pl_tasks s)\<rparr>)
      | _ \<Rightarrow> None)"
| "pool_step (EvCheck now u) s =
     (if pl_restart s = [] then Some (s\<lparr>pl_restart := restart_keys now u s\<rparr>) else None)"
| "pool_step EvRestart s =
     (case pl_restart s of
        [] \<Rightarrow> None
      | k # ks \<Rightarrow> Some ((restart_browser k s)\<lparr>pl_restart := ks\<rparr>))"
| "pool_step EvStop s =
     Some (s\<lparr>pl_stopped := pl_stopped s @ map snd (pl_browsers s), pl_browsers := [], pl_start_times := [],
             pl_started := False, pl_restart := []\<rparr>)"

fun pool_run :: "pool_ev list \<Rightarrow> pool \<Rightarrow> pool option" where
  "pool_run [] s = Some s"
| "pool_run (e # es) s = (case pool_step e s of None \<Rightarrow> None | Some s' \<Rightarrow> pool_run es s')"

text \<open>A cancellation that loses a permit: the task is past the semaphore.\<close>

definition leaks :: "pool_ev \<Rightarrow> pool \<Rightarrow> bool" where
  "leaks e s \<longleftrightarrow>
     (case e of
        EvCancel t \<Rightarrow> (case map_of (pl_tasks s) t of
                         Some (THold _) \<Rightarrow> True | Some (TCreated _ _) \<Rightarrow> True | _ \<Rightarrow> False)
      | _ \<Rightarrow> False)"

inductive pool_reach :: "(pool_ev \<Rightarrow> pool \<Rightarrow> bool) \<Rightarrow> pool \<Rightarrow> pool \<Rightarrow> bool" for ok s0 where
  reach_init: "pool_reach ok s0 s0"
| reach_step: "pool_reach ok s0 s \<Longrightarrow> ok e s \<Longrightarrow> pool_step e s = Some s' \<Longrightarrow> pool_reach ok s0 s'"

section \<open>Accounting\<close>

definition is_holder :: "task_st \<Rightarrow> bool" where
  "is_holder st \<longleftrightarrow> (case st of TWait _ \<Rightarrow> False | _ \<Rightarrow> True)"

definition holders :: "pool \<Rightarrow> nat" where
  "holders s = length (filter (\<lambda>e. is_holder (snd e)) (pl_tasks s))"

definition woken :: "pool \<Rightarrow> nat" where
  "woken s = length (filter snd (pl_waiters s))"

text \<open>
  The semaphore's shape: the woken futures come first, then the ones still
  waiting; every queued future belongs to a waiting task and back; a free
  permit with a future still waiting means a woken task will pass it on.
\<close>

definition waiter_queue :: "nat list \<Rightarrow> nat list \<Rightarrow> (nat \<times> bool) list" where
  "waiter_queue ds ns = map (\<lambda>t. (t, True)) ds @ map (\<lambda>t. (t, False)) ns"

definition sem_inv :: "pool \<Rightarrow> bool" where
  "sem_inv s \<longleftrightarrow>
     0 \<le> pl_value s \<and> dict_wf (pl_tasks s) \<and>
     (\<exists>ds ns. pl_waiters s = waiter_queue ds ns \<and> distinct (ds @ ns) \<and>
              (0 < pl_value s \<and> ns \<noteq> [] \<longrightarrow> ds \<noteq> []) \<and>
              (\<forall>t. (\<exists>p. map_of (pl_tasks s) t = Some (TWait p)) \<longleftrightarrow> t \<in> set ds \<union> set ns))"

definition permits :: "pool \<Rightarrow> int" where
  "permits s = pl_value s + int (holders s) + int (woken s)"

text \<open>The woken futures as a list; the event that gives a holder's permit back.\<close>

definition unwoken :: "pool \<Rightarrow> nat list" where
  "unwoken s = map fst (filter (\<lambda>w. \<not> snd w) (pl_waiters s))"

definition release_ev :: "nat \<Rightarrow> task_st \<Rightarrow> pool_ev" where
  "release_ev u x = (case x of THold _ \<Rightarrow> EvCreateFail u | TCreated _ _ \<Rightarrow> EvTabFail u
                              | TTab _ _ \<Rightarrow> EvRelease u | TWait _ \<Rightarrow> EvResume u)"

definition is_cancel :: "pool_ev \<Rightarrow> bool" where
  "is_cancel e \<longleftrightarrow> (case e of EvCancel _ \<Rightarrow> True | _ \<Rightarrow> False)"

definition launch_inv :: "pool \<Rightarrow> bool" where
  "launch_inv s \<longleftrightarrow>
     (\<forall>k b. map_of (pl_browsers s) k = Some b \<longrightarrow> b < pl_next_browser s \<and>
        (\<exists>q. proxy_key_of q = k \<and> map_of (pl_launched s) b = Some (browser_args_with_defaults (pl_args s) q))) \<and>
     (\<forall>t p b. map_of (pl_tasks s) t \<in> {Some (TCreated p b), Some (TTab p b)} \<longrightarrow>
        (\<exists>q. proxy_key_of q = proxy_key_of p \<and> map_of (pl_launched s) b = Some (browser_args_with_defaults (pl_args s) q))) \<and>
     (\<forall>b \<in> dict_keys (pl_launched s). b < pl_next_browser s)"

section \<open>Lemmas\<close>

lemma wake_first_wl:
  "wake_first (waiter_queue ds []) = None" "wake_first (waiter_queue ds (n # ns)) = Some (waiter_queue (ds @ [n]) ns)"
  by (induction ds) (simp_all add: waiter_queue_def)

lemma remove1_map_pair: "remove1 (t, b) (map (\<lambda>x. (x, b)) xs) = map (\<lambda>x. (x, b)) (remove1 t xs)"
  by (induction xs) auto

lemma remove1_wl_True: "remove1 (t, True) (waiter_queue ds ns) = waiter_queue (remove1 t ds) ns"
proof (cases "t \<in> set ds")
  case True then show ?thesis by (simp add: waiter_queue_def remove1_append remove1_map_pair)
next
  case False
  moreover have "(t, True) \<notin> set (map (\<lambda>x. (x, False)) ns)" by auto
  ultimately show ?thesis by (auto simp: waiter_queue_def remove1_append remove1_idem)
qed

lemma remove1_wl_False: "remove1 (t, False) (waiter_queue ds ns) = waiter_queue ds (remove1 t ns)"
proof -
  have "(t, False) \<notin> set (map (\<lambda>x. (x, True)) ds)" by auto
  then show ?thesis by (simp add: waiter_queue_def remove1_append remove1_map_pair)
qed

lemma wl_snoc: "waiter_queue ds ns @ [(t, False)] = waiter_queue ds (ns @ [t])"
  by (simp add: waiter_queue_def)

lemma wl_facts:
  "length (filter snd (waiter_queue ds ns)) = length ds"
  "map fst (waiter_queue ds ns) = ds @ ns"
  "fst ` set (waiter_queue ds ns) = set ds \<union> set ns"
  "(t, True) \<in> set (waiter_queue ds ns) \<longleftrightarrow> t \<in> set ds"
  "(t, False) \<in> set (waiter_queue ds ns) \<longleftrightarrow> t \<in> set ns"
  "waiter_queue ds ns = [] \<longleftrightarrow> ds = [] \<and> ns = []"
  by (auto simp: waiter_queue_def comp_def filter_map image_Un image_image)

lemma count_update:
  "length (filter (\<lambda>e. P (snd e)) (AList.update k v d)) +
     (case map_of d k of Some x \<Rightarrow> if P x then 1 else 0 | None \<Rightarrow> 0) =
   length (filter (\<lambda>e. P (snd e)) d) + (if P v then 1 else 0)"
  by (induction d) auto

lemma count_delete:
  "dict_wf d \<Longrightarrow> length (filter (\<lambda>e. P (snd e)) (AList.delete k d)) +
     (case map_of d k of Some x \<Rightarrow> if P x then 1 else 0 | None \<Rightarrow> 0) =
   length (filter (\<lambda>e. P (snd e)) d)"
proof (induction d)
  case Nil then show ?case by simp
next
  case (Cons a d)
  then have "dict_wf d" "fst a \<notin> fst ` set d" by (auto simp: dict_wf_def)
  moreover have "fst a \<notin> fst ` set d \<Longrightarrow> AList.delete (fst a) d = d"
    by (simp add: AList.delete_idem)
  ultimately show ?case using Cons.IH by (cases a) (auto split: option.splits)
qed

lemma sem_invI:
  assumes "0 \<le> pl_value s" "dict_wf (pl_tasks s)" "pl_waiters s = waiter_queue ds ns" "distinct (ds @ ns)"
    "0 < pl_value s \<and> ns \<noteq> [] \<longrightarrow> ds \<noteq> []"
    "\<And>t. (\<exists>p. map_of (pl_tasks s) t = Some (TWait p)) \<longleftrightarrow> t \<in> set ds \<union> set ns"
  shows "sem_inv s"
  using assms unfolding sem_inv_def by blast

lemma sem_invE:
  assumes "sem_inv s"
  obtains ds ns where "0 \<le> pl_value s" "dict_wf (pl_tasks s)" "pl_waiters s = waiter_queue ds ns"
    "distinct (ds @ ns)" "0 < pl_value s \<and> ns \<noteq> [] \<longrightarrow> ds \<noteq> []"
    "\<And>t. (\<exists>p. map_of (pl_tasks s) t = Some (TWait p)) \<longleftrightarrow> t \<in> set ds \<union> set ns"
  using assms unfolding sem_inv_def by blast

lemma sem_wake_cases:
  assumes "pl_waiters s = waiter_queue ds ns"
    and "ns = [] \<Longrightarrow> P s"
    and "\<And>n ns'. ns = n # ns' \<Longrightarrow> P (s\<lparr>pl_value := pl_value s - 1, pl_waiters := waiter_queue (ds @ [n]) ns'\<rparr>)"
  shows "P (sem_wake s)"
  using assms by (cases ns) (simp_all add: sem_wake_def wake_first_wl)

lemma holders_delete:
  "dict_wf (pl_tasks s) \<Longrightarrow> map_of (pl_tasks s) t = Some x \<Longrightarrow>
     holders (s\<lparr>pl_tasks := AList.delete t (pl_tasks s)\<rparr>) + (if is_holder x then 1 else 0) = holders s"
  using count_delete[of "pl_tasks s" is_holder t] by (simp add: holders_def)

lemma holders_update:
  "map_of (pl_tasks s) t = Some x \<Longrightarrow>
     holders (s\<lparr>pl_tasks := AList.update t y (pl_tasks s)\<rparr>) + (if is_holder x then 1 else 0) =
       holders s + (if is_holder y then 1 else 0)"
  using count_update[of is_holder t y "pl_tasks s"] by (simp add: holders_def)

lemma holders_fresh:
  "map_of (pl_tasks s) t = None \<Longrightarrow>
     holders (s\<lparr>pl_tasks := AList.update t y (pl_tasks s)\<rparr>) = holders s + (if is_holder y then 1 else 0)"
  using count_update[of is_holder t y "pl_tasks s"] by (simp add: holders_def)

lemma map_of_delete_other: "t' \<noteq> t \<Longrightarrow> map_of (AList.delete t d) t' = map_of d t'"
  by (simp add: delete_conv)

lemma map_of_update_other: "t' \<noteq> t \<Longrightarrow> map_of (AList.update t v d) t' = map_of d t'"
  by (simp add: update_conv)

text \<open>A holder leaves and its permit goes back through \<open>release\<close>.\<close>

lemma release_holder:
  assumes inv: "sem_inv s" and t: "map_of (pl_tasks s) t = Some x" and h: "is_holder x"
  shows "sem_inv (sem_release (s\<lparr>pl_tasks := AList.delete t (pl_tasks s)\<rparr>)) \<and>
         permits (sem_release (s\<lparr>pl_tasks := AList.delete t (pl_tasks s)\<rparr>)) = permits s"
proof -
  obtain ds ns where v: "0 \<le> pl_value s" and wf: "dict_wf (pl_tasks s)" and q: "pl_waiters s = waiter_queue ds ns"
    and d: "distinct (ds @ ns)" and "0 < pl_value s \<and> ns \<noteq> [] \<longrightarrow> ds \<noteq> []"
    and w: "\<And>t. (\<exists>p. map_of (pl_tasks s) t = Some (TWait p)) \<longleftrightarrow> t \<in> set ds \<union> set ns"
    using sem_invE[OF inv] by blast
  define s1 where "s1 = s\<lparr>pl_tasks := AList.delete t (pl_tasks s), pl_value := pl_value s + 1\<rparr>"
  have tw: "t \<notin> set ds \<union> set ns" using w[of t] t h by (auto simp: is_holder_def)
  have w1: "(\<exists>p. map_of (pl_tasks s1) t' = Some (TWait p)) \<longleftrightarrow> t' \<in> set ds \<union> set ns" for t'
    using w[of t'] tw by (cases "t' = t") (simp_all add: s1_def map_of_delete_other)
  have hs: "holders s1 + 1 = holders s" using holders_delete[OF wf t] h by (simp add: s1_def holders_def)
  have "sem_release (s\<lparr>pl_tasks := AList.delete t (pl_tasks s)\<rparr>) = sem_wake s1"
    by (simp add: sem_release_def s1_def)
  moreover have "pl_waiters s1 = waiter_queue ds ns" using q by (simp add: s1_def)
  then have "sem_inv (sem_wake s1) \<and> permits (sem_wake s1) = permits s"
  proof (rule sem_wake_cases)
    assume n: "ns = []"
    have "sem_inv s1"
      by (rule sem_invI[where ds = ds and ns = ns]) (use v wf q d w1 n in \<open>simp_all add: s1_def\<close>)
    then show "sem_inv s1 \<and> permits s1 = permits s"
      using q hs by (simp add: s1_def permits_def woken_def wl_facts)
  next
    fix n ns' assume n: "ns = n # ns'"
    let ?s2 = "s1\<lparr>pl_value := pl_value s1 - 1, pl_waiters := waiter_queue (ds @ [n]) ns'\<rparr>"
    have "sem_inv ?s2"
      by (rule sem_invI[where ds = "ds @ [n]" and ns = ns']) (use v wf q d w1 n in \<open>auto simp: s1_def\<close>)
    moreover have "holders ?s2 = holders s1" by (simp add: holders_def)
    ultimately show "sem_inv ?s2 \<and> permits ?s2 = permits s"
      using q hs by (simp add: s1_def permits_def woken_def wl_facts)
  qed
  ultimately show ?thesis by simp
qed

lemma sem_wake_ok:
  assumes q: "pl_waiters s = waiter_queue ds ns" and d: "distinct (ds @ ns)" and wf: "dict_wf (pl_tasks s)"
    and w: "\<And>t. (\<exists>p. map_of (pl_tasks s) t = Some (TWait p)) \<longleftrightarrow> t \<in> set ds \<union> set ns"
    and v: "0 < pl_value s"
  shows "sem_inv (sem_wake s) \<and> permits (sem_wake s) = permits s"
  using q
proof (rule sem_wake_cases)
  assume n: "ns = []"
  show "sem_inv s \<and> permits s = permits s"
    by (simp, rule sem_invI[where ds = ds and ns = ns]) (use q d wf w v n in simp_all)
next
  fix n ns' assume n: "ns = n # ns'"
  let ?s2 = "s\<lparr>pl_value := pl_value s - 1, pl_waiters := waiter_queue (ds @ [n]) ns'\<rparr>"
  have "sem_inv ?s2"
    by (rule sem_invI[where ds = "ds @ [n]" and ns = ns']) (use q d wf w v n in auto)
  moreover have "holders ?s2 = holders s" by (simp add: holders_def)
  ultimately show "sem_inv ?s2 \<and> permits ?s2 = permits s"
    using q n by (simp add: permits_def woken_def wl_facts)
qed

lemma sem_inv_frame:
  "pl_value s' = pl_value s \<Longrightarrow> pl_waiters s' = pl_waiters s \<Longrightarrow> pl_tasks s' = pl_tasks s \<Longrightarrow>
     sem_inv s' = sem_inv s \<and> permits s' = permits s"
  by (simp add: sem_inv_def permits_def holders_def woken_def)

lemma sem_acquire_ok:
  assumes inv: "sem_inv s" and t: "t \<notin> dict_keys (pl_tasks s)"
  shows "sem_inv (sem_acquire t p s) \<and> permits (sem_acquire t p s) = permits s"
proof -
  obtain ds ns where v: "0 \<le> pl_value s" and wf: "dict_wf (pl_tasks s)" and q: "pl_waiters s = waiter_queue ds ns"
    and d: "distinct (ds @ ns)" and disc: "0 < pl_value s \<and> ns \<noteq> [] \<longrightarrow> ds \<noteq> []"
    and w: "\<And>t. (\<exists>p. map_of (pl_tasks s) t = Some (TWait p)) \<longleftrightarrow> t \<in> set ds \<union> set ns"
    using sem_invE[OF inv] by blast
  have none: "map_of (pl_tasks s) t = None" using t by (simp add: dict_keys_map_of)
  then have tn: "t \<notin> set ds \<union> set ns" using w[of t] by simp
  show ?thesis
  proof (cases "sem_locked s")
    case False
    then have e: "ds = []" "ns = []" "0 < pl_value s" using q v by (auto simp: sem_locked_def wl_facts)
    let ?s2 = "s\<lparr>pl_value := pl_value s - 1, pl_tasks := AList.update t (THold p) (pl_tasks s)\<rparr>"
    have "sem_inv ?s2"
      by (rule sem_invI[where ds = ds and ns = ns])
         (use wf q e w none in \<open>auto simp: update_conv' split: if_splits\<close>)
    moreover have "holders ?s2 = holders s + 1" using holders_fresh[OF none, of "THold p"]
      by (simp add: is_holder_def holders_def)
    ultimately show ?thesis using False q by (simp add: sem_acquire_def permits_def woken_def)
  next
    case True
    let ?s2 = "s\<lparr>pl_waiters := pl_waiters s @ [(t, False)], pl_tasks := AList.update t (TWait p) (pl_tasks s)\<rparr>"
    have "ds \<noteq> [] \<or> ns \<noteq> [] \<or> pl_value s = 0" using True q by (auto simp: sem_locked_def wl_facts)
    then have "sem_inv ?s2"
      by (intro sem_invI[where ds = ds and ns = "ns @ [t]"])
         (use v wf q d disc w tn in \<open>auto simp: wl_snoc update_conv' split: if_splits\<close>)
    moreover have "holders ?s2 = holders s" using holders_fresh[OF none, of "TWait p"]
      by (simp add: is_holder_def holders_def)
    ultimately show ?thesis using True q by (simp add: sem_acquire_def permits_def woken_def wl_snoc wl_facts)
  qed
qed

lemma distinct_remove1_app:
  "distinct (xs @ ys) \<Longrightarrow> distinct (remove1 t xs @ ys)"
  "distinct (xs @ ys) \<Longrightarrow> distinct (xs @ remove1 t ys)"
  using set_remove1_subset[of t xs] set_remove1_subset[of t ys] by (auto simp: distinct_remove1)

lemma resume_ok:
  assumes inv: "sem_inv s" and t: "map_of (pl_tasks s) t = Some (TWait p)" and tw: "(t, True) \<in> set (pl_waiters s)"
  defines "s1 \<equiv> s\<lparr>pl_waiters := remove1 (t, True) (pl_waiters s), pl_tasks := AList.update t (THold p) (pl_tasks s)\<rparr>"
  shows "sem_inv (if pl_value s1 > 0 then sem_wake s1 else s1) \<and> permits (if pl_value s1 > 0 then sem_wake s1 else s1) = permits s"
proof -
  obtain ds ns where v: "0 \<le> pl_value s" and wf: "dict_wf (pl_tasks s)" and q: "pl_waiters s = waiter_queue ds ns"
    and d: "distinct (ds @ ns)" and disc: "0 < pl_value s \<and> ns \<noteq> [] \<longrightarrow> ds \<noteq> []"
    and w: "\<And>t. (\<exists>p. map_of (pl_tasks s) t = Some (TWait p)) \<longleftrightarrow> t \<in> set ds \<union> set ns"
    using sem_invE[OF inv] by blast
  have tds: "t \<in> set ds" using tw q by (simp add: wl_facts)
  have q1: "pl_waiters s1 = waiter_queue (remove1 t ds) ns" using q by (simp add: s1_def remove1_wl_True)
  have d1: "distinct (remove1 t ds @ ns)" using d by (rule distinct_remove1_app)
  have wf1: "dict_wf (pl_tasks s1)" using wf by (simp add: s1_def)
  have w1: "(\<exists>p. map_of (pl_tasks s1) t' = Some (TWait p)) \<longleftrightarrow> t' \<in> set (remove1 t ds) \<union> set ns" for t'
    using w[of t'] d tds by (cases "t' = t") (auto simp: s1_def map_of_update_other update_conv')
  have h1: "holders s1 = holders s + 1" using holders_update[OF t, of "THold p"]
    by (simp add: s1_def is_holder_def holders_def)
  have wk: "woken s1 + 1 = woken s" using q q1 tds by (simp add: woken_def wl_facts length_remove1)
      (metis One_nat_def Suc_pred length_pos_if_in_set)
  have p1: "permits s1 = permits s" using h1 wk by (simp add: permits_def s1_def)
  show ?thesis
  proof (cases "pl_value s1 > 0")
    case True
    with sem_wake_ok[OF q1 d1 wf1 w1] p1 show ?thesis by simp
  next
    case False
    have "sem_inv s1"
      by (rule sem_invI[where ds = "remove1 t ds" and ns = ns]) (use v q1 d1 wf1 w1 False in \<open>simp_all add: s1_def\<close>)
    with False p1 show ?thesis by simp
  qed
qed

lemma cancel_woken_ok:
  assumes inv: "sem_inv s" and t: "map_of (pl_tasks s) t = Some (TWait p)" and tw: "(t, True) \<in> set (pl_waiters s)"
  defines "s1 \<equiv> s\<lparr>pl_waiters := remove1 (t, True) (pl_waiters s), pl_tasks := AList.delete t (pl_tasks s)\<rparr>"
  shows "sem_inv (sem_release s1) \<and> permits (sem_release s1) = permits s"
proof -
  obtain ds ns where v: "0 \<le> pl_value s" and wf: "dict_wf (pl_tasks s)" and q: "pl_waiters s = waiter_queue ds ns"
    and d: "distinct (ds @ ns)" and "0 < pl_value s \<and> ns \<noteq> [] \<longrightarrow> ds \<noteq> []"
    and w: "\<And>t. (\<exists>p. map_of (pl_tasks s) t = Some (TWait p)) \<longleftrightarrow> t \<in> set ds \<union> set ns"
    using sem_invE[OF inv] by blast
  let ?s2 = "s1\<lparr>pl_value := pl_value s1 + 1\<rparr>"
  have tds: "t \<in> set ds" using tw q by (simp add: wl_facts)
  have q1: "pl_waiters ?s2 = waiter_queue (remove1 t ds) ns" using q by (simp add: s1_def remove1_wl_True)
  have d1: "distinct (remove1 t ds @ ns)" using d by (rule distinct_remove1_app)
  have wf1: "dict_wf (pl_tasks ?s2)" using wf by (simp add: s1_def)
  have w1: "(\<exists>p. map_of (pl_tasks ?s2) t' = Some (TWait p)) \<longleftrightarrow> t' \<in> set (remove1 t ds) \<union> set ns" for t'
    using w[of t'] d tds by (cases "t' = t") (auto simp: s1_def map_of_delete_other)
  have h1: "holders ?s2 = holders s" using holders_delete[OF wf t] by (simp add: s1_def is_holder_def holders_def)
  have wk: "woken ?s2 + 1 = woken s" using q q1 tds by (simp add: woken_def wl_facts length_remove1)
      (metis One_nat_def Suc_pred length_pos_if_in_set)
  have "permits ?s2 = permits s" using h1 wk by (simp add: permits_def s1_def)
  moreover have "0 < pl_value ?s2" using v by (simp add: s1_def)
  ultimately show ?thesis using sem_wake_ok[OF q1 d1 wf1 w1] by (simp add: sem_release_def)
qed

lemma cancel_waiting_ok:
  assumes inv: "sem_inv s" and t: "map_of (pl_tasks s) t = Some (TWait p)" and tw: "(t, True) \<notin> set (pl_waiters s)"
  defines "s1 \<equiv> s\<lparr>pl_waiters := remove1 (t, False) (pl_waiters s), pl_tasks := AList.delete t (pl_tasks s)\<rparr>"
  shows "sem_inv s1 \<and> permits s1 = permits s"
proof -
  obtain ds ns where v: "0 \<le> pl_value s" and wf: "dict_wf (pl_tasks s)" and q: "pl_waiters s = waiter_queue ds ns"
    and d: "distinct (ds @ ns)" and disc: "0 < pl_value s \<and> ns \<noteq> [] \<longrightarrow> ds \<noteq> []"
    and w: "\<And>t. (\<exists>p. map_of (pl_tasks s) t = Some (TWait p)) \<longleftrightarrow> t \<in> set ds \<union> set ns"
    using sem_invE[OF inv] by blast
  have tns: "t \<in> set ns" "t \<notin> set ds" using w[of t] t tw q by (auto simp: wl_facts)
  have q1: "pl_waiters s1 = waiter_queue ds (remove1 t ns)" using q by (simp add: s1_def remove1_wl_False)
  have d1: "distinct (ds @ remove1 t ns)" using d by (rule distinct_remove1_app)
  have w1: "(\<exists>p. map_of (pl_tasks s1) t' = Some (TWait p)) \<longleftrightarrow> t' \<in> set ds \<union> set (remove1 t ns)" for t'
    using w[of t'] d tns by (cases "t' = t") (auto simp: s1_def map_of_delete_other)
  have "sem_inv s1"
    by (rule sem_invI[where ds = ds and ns = "remove1 t ns"])
       (use v wf q1 d1 w1 disc in \<open>auto simp: s1_def dest: notin_set_remove1\<close>)
  moreover have "holders s1 = holders s" using holders_delete[OF wf t] by (simp add: s1_def is_holder_def holders_def)
  moreover have "woken s1 = woken s" using q q1 by (simp add: woken_def wl_facts)
  ultimately show ?thesis by (simp add: permits_def s1_def)
qed

lemma leak_ok:
  assumes inv: "sem_inv s" and t: "map_of (pl_tasks s) t = Some x" and h: "is_holder x"
  shows "sem_inv (s\<lparr>pl_tasks := AList.delete t (pl_tasks s)\<rparr>) \<and>
         permits (s\<lparr>pl_tasks := AList.delete t (pl_tasks s)\<rparr>) = permits s - 1"
proof -
  obtain ds ns where v: "0 \<le> pl_value s" and wf: "dict_wf (pl_tasks s)" and q: "pl_waiters s = waiter_queue ds ns"
    and d: "distinct (ds @ ns)" and disc: "0 < pl_value s \<and> ns \<noteq> [] \<longrightarrow> ds \<noteq> []"
    and w: "\<And>t. (\<exists>p. map_of (pl_tasks s) t = Some (TWait p)) \<longleftrightarrow> t \<in> set ds \<union> set ns"
    using sem_invE[OF inv] by blast
  have tw: "t \<notin> set ds \<union> set ns" using w[of t] t h by (auto simp: is_holder_def)
  have "sem_inv (s\<lparr>pl_tasks := AList.delete t (pl_tasks s)\<rparr>)"
    by (rule sem_invI[where ds = ds and ns = ns])
       (use v wf q d disc w tw in \<open>auto simp: map_of_delete_other delete_conv'\<close>)
  moreover have "holders (s\<lparr>pl_tasks := AList.delete t (pl_tasks s)\<rparr>) + 1 = holders s"
    using holders_delete[OF wf t] h by simp
  ultimately show ?thesis by (simp add: permits_def woken_def)
qed

lemma holder_update_ok:
  assumes inv: "sem_inv s" and t: "map_of (pl_tasks s) t = Some x" and h: "is_holder x" "is_holder y"
  shows "sem_inv (s\<lparr>pl_tasks := AList.update t y (pl_tasks s)\<rparr>) \<and>
         permits (s\<lparr>pl_tasks := AList.update t y (pl_tasks s)\<rparr>) = permits s"
proof -
  obtain ds ns where v: "0 \<le> pl_value s" and wf: "dict_wf (pl_tasks s)" and q: "pl_waiters s = waiter_queue ds ns"
    and d: "distinct (ds @ ns)" and disc: "0 < pl_value s \<and> ns \<noteq> [] \<longrightarrow> ds \<noteq> []"
    and w: "\<And>t. (\<exists>p. map_of (pl_tasks s) t = Some (TWait p)) \<longleftrightarrow> t \<in> set ds \<union> set ns"
    using sem_invE[OF inv] by blast
  have tw: "t \<notin> set ds \<union> set ns" using w[of t] t h by (auto simp: is_holder_def)
  have "sem_inv (s\<lparr>pl_tasks := AList.update t y (pl_tasks s)\<rparr>)"
    by (rule sem_invI[where ds = ds and ns = ns])
       (use v wf q d disc w tw h in \<open>auto simp: map_of_update_other update_conv' is_holder_def split: task_st.splits\<close>)
  moreover have "holders (s\<lparr>pl_tasks := AList.update t y (pl_tasks s)\<rparr>) = holders s"
    using holders_update[OF t, of y] h by simp
  ultimately show ?thesis by (simp add: permits_def woken_def)
qed

lemma get_or_create_frame:
  "get_or_create p now s = (s1, r) \<Longrightarrow>
     pl_value s1 = pl_value s \<and> pl_waiters s1 = pl_waiters s \<and> pl_tasks s1 = pl_tasks s"
  by (auto simp: get_or_create_def Let_def split: if_splits)

lemma is_holder_simps [simp]:
  "\<not> is_holder (TWait p)" "is_holder (THold p)" "is_holder (TCreated p b)" "is_holder (TTab p b)"
  by (simp_all add: is_holder_def)

theorem pool_step_permits:
  assumes inv: "sem_inv s" and st: "pool_step e s = Some s'"
  shows "sem_inv s' \<and> permits s' = permits s - (if leaks e s then 1 else 0)"
proof (cases e)
  case (EvFetch t r)
  then show ?thesis using st sem_acquire_ok[OF inv]
    by (auto simp: leaks_def split: if_splits sum.splits)
next
  case (EvResume t)
  then show ?thesis using st resume_ok[OF inv]
    by (auto simp: leaks_def Let_def split: option.splits task_st.splits if_splits)
next
  case (EvCreate t now)
  then obtain p s1 b where t: "map_of (pl_tasks s) t = Some (THold p)" and g: "get_or_create p now s = (s1, Some b)"
    and s': "s' = s1\<lparr>pl_tasks := AList.update t (TCreated p b) (pl_tasks s1)\<rparr>"
    using st by (auto split: option.splits task_st.splits prod.splits)
  have f: "sem_inv s1 = sem_inv s \<and> permits s1 = permits s"
    using get_or_create_frame[OF g] by (intro sem_inv_frame) simp_all
  then have "sem_inv s1" using inv by simp
  moreover have "map_of (pl_tasks s1) t = Some (THold p)" using get_or_create_frame[OF g] t by simp
  ultimately show ?thesis using holder_update_ok[of s1 t "THold p" "TCreated p b"] f s' EvCreate
    by (simp add: leaks_def)
next
  case (EvCreateFail t)
  then show ?thesis using st release_holder[OF inv]
    by (auto simp: leaks_def split: option.splits task_st.splits)
next
  case (EvTab t)
  then show ?thesis using st holder_update_ok[OF inv]
    by (auto simp: leaks_def split: option.splits task_st.splits if_splits)
next
  case (EvTabFail t)
  then show ?thesis using st release_holder[OF inv]
    by (auto simp: leaks_def split: option.splits task_st.splits)
next
  case (EvRelease t)
  then show ?thesis using st release_holder[OF inv]
    by (auto simp: leaks_def split: option.splits task_st.splits)
next
  case (EvCancel t)
  then show ?thesis using st cancel_woken_ok[OF inv] cancel_waiting_ok[OF inv] leak_ok[OF inv]
    by (auto simp: leaks_def split: option.splits task_st.splits if_splits)
next
  case (EvCheck now u)
  then show ?thesis using st inv sem_inv_frame[of s' s] by (auto simp: leaks_def split: if_splits)
next
  case EvRestart
  then show ?thesis using st inv sem_inv_frame[of s' s]
    by (auto simp: leaks_def restart_browser_def split: list.splits option.splits)
next
  case EvStop
  then show ?thesis using st inv sem_inv_frame[of s' s] by (auto simp: leaks_def)
qed

lemma pool_init_inv: "0 \<le> m \<Longrightarrow> sem_inv (pool_init m args age) \<and> permits (pool_init m args age) = m"
  by (auto simp: pool_init_def permits_def holders_def woken_def waiter_queue_def intro!: sem_invI[where ds = "[]" and ns = "[]"])

theorem permits_bounded:
  assumes "pool_reach (\<lambda>_ _. True) (pool_init m args age) s" and "0 \<le> m"
  shows "0 \<le> pl_value s \<and> pl_value s + int (holders s) \<le> m"
proof -
  have "sem_inv s \<and> permits s \<le> m"
    using assms(1)
  proof (induction rule: pool_reach.induct)
    case reach_init then show ?case using pool_init_inv[OF assms(2)] by simp
  next
    case (reach_step s e s')
    then show ?case using pool_step_permits[of s e s'] by (auto split: if_splits)
  qed
  then show ?thesis by (auto simp: sem_inv_def permits_def)
qed

lemma unwoken_wq: "pl_waiters s = waiter_queue ds ns \<Longrightarrow> unwoken s = ns"
  by (simp add: unwoken_def waiter_queue_def comp_def filter_map)

lemma pool_run_append:
  "pool_run (xs @ ys) s = (case pool_run xs s of None \<Rightarrow> None | Some s' \<Rightarrow> pool_run ys s')"
  by (induction xs arbitrary: s) (auto split: option.splits)

lemma release_ev_step:
  "map_of (pl_tasks s) u = Some x \<Longrightarrow> is_holder x \<Longrightarrow>
     pool_step (release_ev u x) s = Some (sem_release (s\<lparr>pl_tasks := AList.delete u (pl_tasks s)\<rparr>)) \<and>
     \<not> is_cancel (release_ev u x) \<and> \<not> leaks (release_ev u x) s"
  by (cases x) (simp_all add: release_ev_def is_cancel_def leaks_def)

lemma holder_exists:
  assumes "dict_wf (pl_tasks s)" "0 < holders s"
  shows "\<exists>u x. map_of (pl_tasks s) u = Some x \<and> is_holder x"
proof -
  obtain u x where "(u, x) \<in> set (pl_tasks s)" "is_holder x"
  proof -
    have "filter (\<lambda>e. is_holder (snd e)) (pl_tasks s) \<noteq> []" using assms(2) by (simp add: holders_def)
    then obtain e where "e \<in> set (pl_tasks s)" "is_holder (snd e)" by (auto simp: filter_empty_conv)
    then show ?thesis using that[of "fst e" "snd e"] by simp
  qed
  then show ?thesis using assms(1) by (auto simp: dict_wf_def intro: map_of_is_SomeI)
qed

lemma sem_wake_tasks [simp]: "pl_tasks (sem_wake s) = pl_tasks s"
  by (simp add: sem_wake_def split: option.split)

text \<open>Waking hands the permit to the head of the unwoken waiters.\<close>

lemma wake_unwoken:
  "pl_waiters s = waiter_queue ds ns \<Longrightarrow> unwoken (sem_wake s) = tl ns \<and> fst ` set (pl_waiters (sem_wake s)) = fst ` set (pl_waiters s)"
  by (cases ns) (auto simp: sem_wake_def wake_first_wl unwoken_wq wl_facts)

lemma release_unwoken:
  "pl_waiters s = waiter_queue ds ns \<Longrightarrow> unwoken (sem_release s) = tl ns \<and>
     fst ` set (pl_waiters (sem_release s)) = fst ` set (pl_waiters s) \<and> pl_tasks (sem_release s) = pl_tasks s"
  using wake_unwoken[of "s\<lparr>pl_value := pl_value s + 1\<rparr>" ds ns]
  by (cases ns) (auto simp: sem_release_def sem_wake_def wake_first_wl)

lemma progress_round:
  assumes inv: "sem_inv s" and pm: "permits s = m" and m: "0 < m" and tw: "(t, False) \<in> set (pl_waiters s)"
  shows "\<exists>evs s'. pool_run evs s = Some s' \<and> list_all (\<lambda>e. \<not> is_cancel e) evs \<and> sem_inv s' \<and> permits s' = m \<and>
           map_of (pl_tasks s') t = map_of (pl_tasks s) t \<and> t \<in> fst ` set (pl_waiters s') \<and>
           length (unwoken s') < length (unwoken s)"
proof -
  obtain ds ns where v: "0 \<le> pl_value s" and wf: "dict_wf (pl_tasks s)" and q: "pl_waiters s = waiter_queue ds ns"
    and d: "distinct (ds @ ns)" and disc: "0 < pl_value s \<and> ns \<noteq> [] \<longrightarrow> ds \<noteq> []"
    and w: "\<And>t. (\<exists>p. map_of (pl_tasks s) t = Some (TWait p)) \<longleftrightarrow> t \<in> set ds \<union> set ns"
    using sem_invE[OF inv] by blast
  have tns: "t \<in> set ns" using tw q by (simp add: wl_facts)
  then have un: "unwoken s = ns" "ns \<noteq> []" using q by (auto simp: unwoken_wq)
  show ?thesis
  proof (cases ds)
    case Nil
    then have "pl_value s = 0" using disc un v by auto
    then have "0 < holders s" using pm m q Nil by (simp add: permits_def woken_def wl_facts)
    then obtain u x where u: "map_of (pl_tasks s) u = Some x" "is_holder x" using holder_exists[OF wf] by blast
    have ut: "u \<noteq> t" using u w[of t] tns by auto
    define s' where "s' = sem_release (s\<lparr>pl_tasks := AList.delete u (pl_tasks s)\<rparr>)"
    have r: "pool_run [release_ev u x] s = Some s'" "list_all (\<lambda>e. \<not> is_cancel e) [release_ev u x]"
      using release_ev_step[OF u] by (simp_all add: s'_def)
    have "unwoken s' = tl ns \<and> fst ` set (pl_waiters s') = fst ` set (pl_waiters s) \<and>
          pl_tasks s' = AList.delete u (pl_tasks s)"
      using release_unwoken[of "s\<lparr>pl_tasks := AList.delete u (pl_tasks s)\<rparr>" ds ns] q by (simp add: s'_def)
    moreover have "t \<in> fst ` set (pl_waiters s)" using tw by force
    ultimately show ?thesis using r release_holder[OF inv u] pm ut un
      by (intro exI[of _ "[release_ev u x]"] exI[of _ s']) (auto simp: s'_def map_of_delete_other)
  next
    case (Cons u ds')
    then obtain pu where pu: "map_of (pl_tasks s) u = Some (TWait pu)" using w[of u] by auto
    have uw: "(u, True) \<in> set (pl_waiters s)" using q Cons by (simp add: wl_facts)
    have ut: "u \<noteq> t" using d Cons tns by auto
    define s1 where "s1 = s\<lparr>pl_waiters := remove1 (u, True) (pl_waiters s), pl_tasks := AList.update u (THold pu) (pl_tasks s)\<rparr>"
    define r1 where "r1 = (if pl_value s1 > 0 then sem_wake s1 else s1)"
    have st1: "pool_step (EvResume u) s = Some r1" using pu uw by (simp add: s1_def r1_def Let_def)
    have i1: "sem_inv r1 \<and> permits r1 = m" using resume_ok[OF inv pu uw] pm
      unfolding r1_def s1_def by (cases "0 < pl_value s") simp_all
    have q1: "pl_waiters s1 = waiter_queue ds' ns" using q Cons by (simp add: s1_def remove1_wl_True)
    have t1: "pl_tasks r1 = AList.update u (THold pu) (pl_tasks s)"
      "fst ` set (pl_waiters r1) = set ds' \<union> set ns" "length (unwoken r1) \<le> length ns"
      using wake_unwoken[OF q1] q1 by (auto simp: r1_def s1_def unwoken_wq wl_facts)
    have ru: "map_of (pl_tasks r1) u = Some (THold pu)" using t1(1) by (simp add: update_conv')
    define s' where "s' = sem_release (r1\<lparr>pl_tasks := AList.delete u (pl_tasks r1)\<rparr>)"
    have r: "pool_run [EvResume u, release_ev u (THold pu)] s = Some s'"
      "list_all (\<lambda>e. \<not> is_cancel e) [EvResume u, release_ev u (THold pu)]"
      using st1 release_ev_step[OF ru] by (simp_all add: s'_def is_cancel_def)
    obtain ds2 ns2 where q2: "pl_waiters r1 = waiter_queue ds2 ns2" using i1 by (auto simp: sem_inv_def)
    have "unwoken s' = tl ns2 \<and> fst ` set (pl_waiters s') = fst ` set (pl_waiters r1) \<and>
          pl_tasks s' = AList.delete u (pl_tasks r1)"
      using release_unwoken[of "r1\<lparr>pl_tasks := AList.delete u (pl_tasks r1)\<rparr>" ds2 ns2] q2 by (simp add: s'_def)
    moreover have "length (tl ns2) < length ns"
    proof -
      have "length ns2 \<le> length ns" using t1(3) q2 by (simp add: unwoken_wq)
      moreover have "0 < length ns" using un(2) by simp
      ultimately show ?thesis by (simp only: length_tl)
    qed
    ultimately show ?thesis using r release_holder[of r1 u "THold pu"] i1 ru t1 tns ut un
      by (intro exI[of _ "[EvResume u, release_ev u (THold pu)]"] exI[of _ s'])
         (auto simp: s'_def map_of_delete_other map_of_update_other)
  qed
qed

lemma reach_sem_inv:
  assumes "pool_reach ok s0 s" "sem_inv s0" "\<And>e s. ok e s \<Longrightarrow> \<not> leaks e s"
  shows "sem_inv s \<and> permits s = permits s0"
  using assms(1)
proof (induction rule: pool_reach.induct)
  case reach_init then show ?case using assms(2) by simp
next
  case (reach_step s e s')
  then show ?case using pool_step_permits[of s e s'] assms(3)[of e s] by simp
qed

lemma resume_woken:
  assumes "map_of (pl_tasks s) t = Some (TWait p)" "(t, True) \<in> set (pl_waiters s)"
  shows "\<exists>s'. pool_step (EvResume t) s = Some s' \<and> map_of (pl_tasks s') t = Some (THold p)"
  using assms by (simp add: Let_def update_conv')

lemma waiter_progress:
  assumes "sem_inv s" "permits s = m" "0 < m" "map_of (pl_tasks s) t = Some (TWait p)"
  shows "\<exists>evs s'. pool_run evs s = Some s' \<and> list_all (\<lambda>e. \<not> is_cancel e) evs \<and>
                 map_of (pl_tasks s') t = Some (THold p)"
  using assms
proof (induction "length (unwoken s)" arbitrary: s rule: less_induct)
  case less
  have "t \<in> fst ` set (pl_waiters s)"
    using less.prems(1,4) by (auto simp: sem_inv_def wl_facts)
  then obtain b where tb: "(t, b) \<in> set (pl_waiters s)" by auto
  show ?case
  proof (cases b)
    case True
    with tb have "(t, True) \<in> set (pl_waiters s)" by simp
    then obtain s' where "pool_step (EvResume t) s = Some s'" "map_of (pl_tasks s') t = Some (THold p)"
      using resume_woken[OF less.prems(4)] by blast
    then show ?thesis by (intro exI[of _ "[EvResume t]"] exI[of _ s']) (simp add: is_cancel_def)
  next
    case False
    with tb have "(t, False) \<in> set (pl_waiters s)" by simp
    then obtain evs1 s1 where r1: "pool_run evs1 s = Some s1" "list_all (\<lambda>e. \<not> is_cancel e) evs1"
      "sem_inv s1" "permits s1 = m" "map_of (pl_tasks s1) t = map_of (pl_tasks s) t"
      "length (unwoken s1) < length (unwoken s)"
      using progress_round[OF less.prems(1-3)] by blast
    then obtain evs2 s2 where r2: "pool_run evs2 s1 = Some s2" "list_all (\<lambda>e. \<not> is_cancel e) evs2"
      "map_of (pl_tasks s2) t = Some (THold p)"
      using less.hyps[of s1] less.prems(3,4) by auto
    then show ?thesis using r1 by (intro exI[of _ "evs1 @ evs2"] exI[of _ s2]) (simp add: pool_run_append)
  qed
qed

lemma pool_run_permits:
  "sem_inv s \<Longrightarrow> pool_run evs s = Some s' \<Longrightarrow> sem_inv s' \<and> permits s' \<le> permits s"
proof (induction evs arbitrary: s)
  case Nil then show ?case by simp
next
  case (Cons e evs)
  then obtain s1 where "pool_step e s = Some s1" "pool_run evs s1 = Some s'" by (auto split: option.splits)
  then show ?case using pool_step_permits[OF Cons.prems(1)] Cons.IH[of s1] by (auto split: if_splits)
qed

lemma no_holder:
  "holders s = 0 \<Longrightarrow> map_of (pl_tasks s) t = Some x \<Longrightarrow> \<not> is_holder x"
  by (auto simp: holders_def filter_empty_conv dest!: map_of_SomeD)

lemmas pool_defs = pool_init_def sem_acquire_def sem_locked_def request_proxy_def sem_release_def sem_wake_def
  get_or_create_def proxy_key_of_def restart_keys_def restart_browser_def dict_keys_def Let_def

lemma proxy_key_of_eq: "proxy_key_of q = proxy_key_of p \<longleftrightarrow> rel_option proxy_eq q p"
  by (cases q; cases p) (simp_all add: proxy_key_of_def proxy_eq_def)

lemma launch_inv_tasks:
  assumes "launch_inv s" "pl_browsers s' = pl_browsers s" "pl_launched s' = pl_launched s"
    "pl_next_browser s' = pl_next_browser s" "pl_args s' = pl_args s"
    "\<And>t p b. map_of (pl_tasks s') t \<in> {Some (TCreated p b), Some (TTab p b)} \<Longrightarrow>
       map_of (pl_tasks s) t \<in> {Some (TCreated p b), Some (TTab p b)}"
  shows "launch_inv s'"
  using assms unfolding launch_inv_def by metis

lemma map_of_delete_in: "map_of (AList.delete t d) t' = Some x \<Longrightarrow> map_of d t' = Some x"
  by (cases "t' = t") (simp_all add: map_of_delete_other)

lemma launch_sem_release: "pl_tasks (sem_release s) = pl_tasks s \<and> pl_browsers (sem_release s) = pl_browsers s \<and>
    pl_launched (sem_release s) = pl_launched s \<and> pl_next_browser (sem_release s) = pl_next_browser s \<and>
    pl_args (sem_release s) = pl_args s"
  by (simp add: sem_release_def sem_wake_def split: option.split)

lemma launch_get_or_create:
  assumes inv: "launch_inv s" and t: "map_of (pl_tasks s) t = Some (THold p)" and g: "get_or_create p now s = (s1, Some b)"
  shows "launch_inv (s1\<lparr>pl_tasks := AList.update t (TCreated p b) (pl_tasks s1)\<rparr>)"
proof (cases "proxy_key_of p \<in> dict_keys (pl_browsers s)")
  case True
  then have s1: "s1 = s" "map_of (pl_browsers s) (proxy_key_of p) = Some b" using g by (auto simp: get_or_create_def)
  then show ?thesis using inv t unfolding launch_inv_def
    by (auto simp: update_conv' split: if_splits)
next
  case False
  let ?n = "pl_next_browser s"
  have s1: "s1 = s\<lparr>pl_browsers := AList.update (proxy_key_of p) ?n (pl_browsers s),
                   pl_start_times := AList.update (proxy_key_of p) now (pl_start_times s), pl_started := True,
                   pl_launched := AList.update ?n (browser_args_with_defaults (pl_args s) p) (pl_launched s),
                   pl_next_browser := Suc ?n\<rparr>" "b = ?n"
    using g False by (auto simp: get_or_create_def update_conv' Let_def)
  have fresh: "map_of (pl_launched s) ?n = None" using inv by (auto simp: launch_inv_def dict_keys_map_of)
  have keep: "map_of (pl_launched s) b' = Some a \<Longrightarrow> map_of (AList.update ?n a' (pl_launched s)) b' = Some a" for b' a a'
    using fresh by (cases "b' = ?n") (simp_all add: update_conv')
  have new: "map_of (pl_launched s1) ?n = Some (browser_args_with_defaults (pl_args s) p)" by (simp add: s1 update_conv')
  let ?s2 = "s1\<lparr>pl_tasks := AList.update t (TCreated p b) (pl_tasks s1)\<rparr>"
  have c1: "map_of (pl_browsers ?s2) k = Some b' \<Longrightarrow> b' < pl_next_browser ?s2 \<and>
      (\<exists>q. proxy_key_of q = k \<and> map_of (pl_launched ?s2) b' = Some (browser_args_with_defaults (pl_args ?s2) q))" for k b'
  proof (cases "k = proxy_key_of p")
    case True
    then show "map_of (pl_browsers ?s2) k = Some b' \<Longrightarrow> ?thesis" using new by (auto simp: s1 update_conv')
  next
    case False
    assume "map_of (pl_browsers ?s2) k = Some b'"
    then have "map_of (pl_browsers s) k = Some b'" using False by (simp add: s1 update_conv')
    then have "b' < pl_next_browser s" "\<exists>q. proxy_key_of q = k \<and>
        map_of (pl_launched s) b' = Some (browser_args_with_defaults (pl_args s) q)"
      using inv unfolding launch_inv_def by blast+
    then show ?thesis using keep by (auto simp: s1)
  qed
  have c2: "map_of (pl_tasks ?s2) t' \<in> {Some (TCreated p' b'), Some (TTab p' b')} \<Longrightarrow>
      \<exists>q. proxy_key_of q = proxy_key_of p' \<and> map_of (pl_launched ?s2) b' = Some (browser_args_with_defaults (pl_args ?s2) q)"
    for t' p' b'
  proof (cases "t' = t")
    case True
    then show "map_of (pl_tasks ?s2) t' \<in> {Some (TCreated p' b'), Some (TTab p' b')} \<Longrightarrow> ?thesis"
      using new by (auto simp: s1 update_conv')
  next
    case False
    assume "map_of (pl_tasks ?s2) t' \<in> {Some (TCreated p' b'), Some (TTab p' b')}"
    then have "map_of (pl_tasks s) t' \<in> {Some (TCreated p' b'), Some (TTab p' b')}" using False by (simp add: s1 update_conv')
    then have "\<exists>q. proxy_key_of q = proxy_key_of p' \<and>
        map_of (pl_launched s) b' = Some (browser_args_with_defaults (pl_args s) q)"
      using inv unfolding launch_inv_def by blast
    then show ?thesis using keep by (auto simp: s1)
  qed
  have c3: "\<forall>b' \<in> dict_keys (pl_launched ?s2). b' < pl_next_browser ?s2"
    using inv by (auto simp: launch_inv_def s1 less_SucI)
  show ?thesis using c1 c2 c3 unfolding launch_inv_def by blast
qed

lemma launch_inv_shrink:
  assumes "launch_inv s" "\<And>k b. map_of (pl_browsers s') k = Some b \<Longrightarrow> map_of (pl_browsers s) k = Some b"
    "pl_launched s' = pl_launched s" "pl_next_browser s' = pl_next_browser s" "pl_args s' = pl_args s"
    "pl_tasks s' = pl_tasks s"
  shows "launch_inv s'"
  using assms unfolding launch_inv_def by metis

lemma sem_wake_frame [simp]:
  "pl_args (sem_wake s) = pl_args s" "pl_browsers (sem_wake s) = pl_browsers s"
  "pl_launched (sem_wake s) = pl_launched s" "pl_next_browser (sem_wake s) = pl_next_browser s"
  by (simp_all add: sem_wake_def split: option.split)

lemma launch_delete:
  "launch_inv s \<Longrightarrow> launch_inv (s\<lparr>pl_waiters := w, pl_tasks := AList.delete t (pl_tasks s)\<rparr>)"
  "launch_inv s \<Longrightarrow> launch_inv (s\<lparr>pl_tasks := AList.delete t (pl_tasks s)\<rparr>)"
  by (erule launch_inv_tasks; simp; metis insert_iff map_of_delete_in singletonD)+

lemma launch_release: "launch_inv s \<Longrightarrow> launch_inv (sem_release s)"
  by (erule launch_inv_tasks) (simp_all add: launch_sem_release)

lemma launch_step:
  assumes inv: "launch_inv s" and st: "pool_step e s = Some s'"
  shows "launch_inv s'"
proof (cases e)
  case (EvFetch t r)
  then obtain p where s': "s' = sem_acquire t p s" and t: "map_of (pl_tasks s) t = None"
    using st by (auto simp: dict_keys_map_of split: if_splits sum.splits)
  show ?thesis using inv
    by (rule launch_inv_tasks) (use s' t in \<open>auto simp: sem_acquire_def update_conv' split: if_splits\<close>)
next
  case (EvResume t)
  then obtain p s1 where s': "s' = (if pl_value s1 > 0 then sem_wake s1 else s1)"
    and s1: "s1 = s\<lparr>pl_waiters := remove1 (t, True) (pl_waiters s), pl_tasks := AList.update t (THold p) (pl_tasks s)\<rparr>"
    using st by (auto simp: Let_def split: option.splits task_st.splits if_splits)
  show ?thesis using inv
    by (rule launch_inv_tasks) (use s' s1 in \<open>auto simp: sem_wake_def update_conv' split: if_splits option.splits\<close>)
next
  case (EvCreate t now)
  then obtain p s1 b where "map_of (pl_tasks s) t = Some (THold p)" "get_or_create p now s = (s1, Some b)"
    "s' = s1\<lparr>pl_tasks := AList.update t (TCreated p b) (pl_tasks s1)\<rparr>"
    using st by (auto split: option.splits task_st.splits prod.splits)
  then show ?thesis using launch_get_or_create[OF inv] by blast
next
  case (EvTab t)
  then obtain p b where t: "map_of (pl_tasks s) t = Some (TCreated p b)"
    and s': "s' = s\<lparr>pl_tasks := AList.update t (TTab p b) (pl_tasks s)\<rparr>"
    using st by (auto split: option.splits task_st.splits if_splits)
  show ?thesis using inv
    by (rule launch_inv_tasks) (use s' t in \<open>auto simp: update_conv' split: if_splits\<close>)
next
  case (EvCheck now u)
  then show ?thesis using st inv by (auto simp: launch_inv_def split: if_splits)
next
  case EvRestart
  then obtain k ks where s': "s' = (restart_browser k s)\<lparr>pl_restart := ks\<rparr>"
    using st by (auto split: list.splits)
  show ?thesis using inv
    by (rule launch_inv_shrink) (auto simp: s' restart_browser_def split: option.splits dest: map_of_delete_in)
next
  case EvStop
  then show ?thesis using st inv by (auto simp: launch_inv_def)
next
  case (EvCreateFail t)
  then show ?thesis using st launch_release launch_delete[OF inv] by (auto split: option.splits task_st.splits)
next
  case (EvTabFail t)
  then show ?thesis using st launch_release launch_delete[OF inv] by (auto split: option.splits task_st.splits)
next
  case (EvRelease t)
  then show ?thesis using st launch_release launch_delete[OF inv] by (auto split: option.splits task_st.splits)
next
  case (EvCancel t)
  then show ?thesis using st launch_release launch_delete[OF inv] by (auto split: option.splits task_st.splits if_splits)
qed

lemma args_frame [simp]:
  "pl_args (sem_acquire t p s) = pl_args s" "pl_args (sem_release s) = pl_args s"
  "pl_args (restart_browser k s) = pl_args s" "get_or_create p now s = (s1, r) \<Longrightarrow> pl_args s1 = pl_args s"
  by (auto simp: sem_acquire_def sem_release_def restart_browser_def get_or_create_def Let_def
           split: option.split if_splits)

lemma pool_step_args: "pool_step e s = Some s' \<Longrightarrow> pl_args s' = pl_args s"
proof (cases e)
  case (EvCreate t now)
  then show "pool_step e s = Some s' \<Longrightarrow> ?thesis"
    by (auto split: option.splits task_st.splits prod.splits dest: args_frame(4))
qed (auto simp: Let_def split: option.splits task_st.splits if_splits list.splits sum.splits)

lemma run_reach:
  "pool_run evs s = Some s' \<Longrightarrow> list_all (\<lambda>e. \<forall>x. ok e x) evs \<Longrightarrow> pool_reach ok s0 s \<Longrightarrow> pool_reach ok s0 s'"
proof (induction evs arbitrary: s)
  case Nil then show ?case by simp
next
  case (Cons e evs)
  then obtain s1 where "pool_step e s = Some s1" "pool_run evs s1 = Some s'" by (auto split: option.splits)
  then show ?case using Cons by (auto intro: pool_reach.reach_step)
qed

lemma run_reach_init:
  "pool_run evs s0 = Some s' \<Longrightarrow> list_all (\<lambda>e. \<forall>x. ok e x) evs \<Longrightarrow> pool_reach ok s0 s'"
  using run_reach pool_reach.reach_init by blast

section \<open>Properties\<close>

text \<open>
  C30: while no task is cancelled past the semaphore, the permits are
  conserved: in every reachable state the semaphore's value, the tasks past
  \<open>_semaphore.acquire()\<close> and the woken waiters add up to \<open>max_concurrent\<close>,
  and the semaphore's queue has its woken futures first.
\<close>

theorem permits_conserved:
  assumes "pool_reach (\<lambda>e s. \<not> leaks e s) (pool_init m args age) s" and "0 \<le> m"
  shows "sem_inv s \<and> pl_value s + int (holders s) + int (woken s) = m"
  using assms(1)
proof (induction rule: pool_reach.induct)
  case reach_init then show ?case using pool_init_inv[OF assms(2)] by (simp add: permits_def)
next
  case (reach_step s e s')
  then show ?case using pool_step_permits[of s e s'] by (simp add: permits_def)
qed

lemma permits_conserved_witness:
  "pool_reach (\<lambda>e s. \<not> leaks e s) (pool_init 1 [] 3600)
     (the (pool_run [EvFetch 1 None, EvFetch 2 None] (pool_init 1 [] 3600))) \<and>
   sem_inv (the (pool_run [EvFetch 1 None, EvFetch 2 None] (pool_init 1 [] 3600))) \<and>
   pl_value (the (pool_run [EvFetch 1 None, EvFetch 2 None] (pool_init 1 [] 3600))) = 0"
proof -
  have r: "pool_reach (\<lambda>e s. \<not> leaks e s) (pool_init 1 [] 3600)
     (the (pool_run [EvFetch 1 None, EvFetch 2 None] (pool_init 1 [] 3600)))"
    by (rule run_reach_init[where evs = "[EvFetch 1 None, EvFetch 2 None]"]) (simp_all add: pool_defs leaks_def)
  show ?thesis using permits_conserved[OF r] r by (simp add: pool_defs holders_def woken_def is_holder_def)
qed

text \<open>
  C31: liveness. While no task is cancelled past the semaphore, a \<open>/fetch\<close>
  waiting for the semaphore gets its permit: from any reachable state some
  finite run of resumptions and releases, with no cancellation, takes it past
  \<open>acquire()\<close>'s semaphore. (The FIFO queue hands each released permit to the
  first waiter not yet woken.)
\<close>

theorem fetch_gets_permit:
  assumes "pool_reach (\<lambda>e s. \<not> leaks e s) (pool_init m args age) s" "0 < m"
    and "map_of (pl_tasks s) t = Some (TWait p)"
  shows "\<exists>evs s'. pool_run evs s = Some s' \<and> list_all (\<lambda>e. \<not> is_cancel e) evs \<and>
                 map_of (pl_tasks s') t = Some (THold p)"
proof -
  have "sem_inv s \<and> permits s = m"
    using reach_sem_inv[OF assms(1)] pool_init_inv[of m args age] assms(2) by simp
  then show ?thesis using waiter_progress assms(2,3) by blast
qed

lemma fetch_gets_permit_witness:
  "pool_reach (\<lambda>e s. \<not> leaks e s) (pool_init 1 [] 3600)
     (the (pool_run [EvFetch 1 None, EvFetch 2 None] (pool_init 1 [] 3600))) \<and>
   map_of (pl_tasks (the (pool_run [EvFetch 1 None, EvFetch 2 None] (pool_init 1 [] 3600)))) 2 = Some (TWait None) \<and>
   (\<exists>evs s'. pool_run evs (the (pool_run [EvFetch 1 None, EvFetch 2 None] (pool_init 1 [] 3600))) = Some s' \<and>
      list_all (\<lambda>e. \<not> is_cancel e) evs \<and> map_of (pl_tasks s') 2 = Some (THold None))"
proof -
  have r: "pool_reach (\<lambda>e s. \<not> leaks e s) (pool_init 1 [] 3600)
     (the (pool_run [EvFetch 1 None, EvFetch 2 None] (pool_init 1 [] 3600)))"
    by (rule run_reach_init[where evs = "[EvFetch 1 None, EvFetch 2 None]"]) (simp_all add: pool_defs leaks_def)
  have w: "map_of (pl_tasks (the (pool_run [EvFetch 1 None, EvFetch 2 None] (pool_init 1 [] 3600)))) 2 = Some (TWait None)"
    by (simp add: pool_defs)
  show ?thesis using fetch_gets_permit[OF r _ w] r w by simp
qed

text \<open>
  C32: a cancelled fetch leaks its permit. With \<open>max_concurrent = 1\<close>, a
  \<open>/fetch\<close> cancelled by \<open>Fetcher.fetch\<close>'s overall timeout after taking the
  permit (while its browser starts) never gives it back, so the next
  \<open>/fetch\<close> waits for ever: no run of events lets it pass the semaphore.
\<close>

theorem cancel_leak_starves:
  "\<exists>s. pool_run [EvFetch 1 None, EvCancel 1, EvFetch 2 None] (pool_init 1 [] 3600) = Some s \<and>
       map_of (pl_tasks s) 2 = Some (TWait None) \<and>
       (\<forall>evs. pred_option (\<lambda>s'. \<forall>p. map_of (pl_tasks s') 2 \<noteq> Some (THold p)) (pool_run evs s))"
proof -
  define s where "s = pool_init 1 [] 3600\<lparr>pl_value := 0, pl_waiters := [(2, False)], pl_tasks := [(2, TWait None)]\<rparr>"
  have run: "pool_run [EvFetch 1 None, EvCancel 1, EvFetch 2 None] (pool_init 1 [] 3600) = Some s"
    by (simp add: s_def pool_defs)
  have inv: "sem_inv s"
    by (rule sem_invI[where ds = "[]" and ns = "[2]"]) (simp_all add: s_def pool_init_def dict_wf_def waiter_queue_def)
  have p0: "permits s = 0" by (simp add: s_def permits_def holders_def woken_def pool_init_def is_holder_def)
  have "\<forall>p. map_of (pl_tasks s') 2 \<noteq> Some (THold p)" if "pool_run evs s = Some s'" for evs s'
  proof -
    have "sem_inv s' \<and> permits s' \<le> 0" using pool_run_permits[OF inv that] p0 by simp
    then have "holders s' = 0" by (auto simp: sem_inv_def permits_def)
    then show ?thesis using no_holder[of s' 2] by (metis is_holder_simps(2))
  qed
  then have "\<forall>evs. pred_option (\<lambda>s'. \<forall>p. map_of (pl_tasks s') 2 \<noteq> Some (THold p)) (pool_run evs s)"
    by (auto simp: pred_option_def)
  then show ?thesis using run by (auto simp: s_def pool_init_def)
qed

text \<open>
  C33: the pool composed with \<open>ProxyConfig\<close>: every tab a \<open>/fetch\<close> holds runs
  in a browser launched with the default arguments, the pool's
  \<open>browser_args\<close> and the \<open>--proxy-server\<close> argument of a proxy equal to the
  fetch's proxy by \<open>__eq__\<close>, which for parsed proxies means the same server.
  The browser may have been started for that proxy with another password.
\<close>

theorem tab_browser_proxy:
  assumes "pool_reach (\<lambda>_ _. True) (pool_init m args age) s" and "map_of (pl_tasks s) t = Some (TTab p b)"
  shows "\<exists>q. rel_option proxy_eq q p \<and> map_of (pl_launched s) b = Some (browser_args_with_defaults args q)"
proof -
  have "launch_inv s \<and> pl_args s = args"
    using assms(1)
  proof (induction rule: pool_reach.induct)
    case reach_init then show ?case by (simp add: launch_inv_def pool_init_def dict_keys_def)
  next
    case (reach_step s e s')
    moreover have "pl_args s' = pl_args s" using reach_step.hyps(3) by (rule pool_step_args)
    ultimately show ?case using launch_step[OF _ reach_step.hyps(3)] by simp
  qed
  then show ?thesis using assms(2) by (auto simp: launch_inv_def proxy_key_of_eq)
qed

lemma tab_browser_proxy_witness:
  "pool_reach (\<lambda>_ _. True) (pool_init 5 [] 3600) (the (pool_run [EvFetch 1 (Some ''http://u:a@h.com:3128''), EvCreate 1 0, EvTab 1, EvFetch 2 (Some ''http://u:b@h.com:3128''), EvCreate 2 5, EvTab 2] (pool_init 5 [] 3600))) \<and>
   map_of (pl_tasks (the (pool_run [EvFetch 1 (Some ''http://u:a@h.com:3128''), EvCreate 1 0, EvTab 1, EvFetch 2 (Some ''http://u:b@h.com:3128''), EvCreate 2 5, EvTab 2] (pool_init 5 [] 3600)))) 2 = Some (TTab (Some \<lparr>pc_server = ''http://h.com:3128'', pc_proxy_key = ''http://u@h.com:3128'', pc_host = ''h.com'', pc_port = 3128, pc_username = Some ''u'', pc_password = Some ''b'', pc_scheme = ''http''\<rparr>) 0) \<and>
   (\<exists>q. rel_option proxy_eq q (Some \<lparr>pc_server = ''http://h.com:3128'', pc_proxy_key = ''http://u@h.com:3128'', pc_host = ''h.com'', pc_port = 3128, pc_username = Some ''u'', pc_password = Some ''b'', pc_scheme = ''http''\<rparr>) \<and>
      map_of (pl_launched (the (pool_run [EvFetch 1 (Some ''http://u:a@h.com:3128''), EvCreate 1 0, EvTab 1, EvFetch 2 (Some ''http://u:b@h.com:3128''), EvCreate 2 5, EvTab 2] (pool_init 5 [] 3600)))) 0 = Some (browser_args_with_defaults [] q))"
proof -
  have r: "pool_reach (\<lambda>_ _. True) (pool_init 5 [] 3600) (the (pool_run [EvFetch 1 (Some ''http://u:a@h.com:3128''), EvCreate 1 0, EvTab 1, EvFetch 2 (Some ''http://u:b@h.com:3128''), EvCreate 2 5, EvTab 2] (pool_init 5 [] 3600)))"
    by (rule run_reach_init[where evs = "[EvFetch 1 (Some ''http://u:a@h.com:3128''), EvCreate 1 0, EvTab 1, EvFetch 2 (Some ''http://u:b@h.com:3128''), EvCreate 2 5, EvTab 2]"]) (simp_all add: pool_defs proxy_defs)
  have t: "map_of (pl_tasks (the (pool_run [EvFetch 1 (Some ''http://u:a@h.com:3128''), EvCreate 1 0, EvTab 1, EvFetch 2 (Some ''http://u:b@h.com:3128''), EvCreate 2 5, EvTab 2] (pool_init 5 [] 3600)))) 2 = Some (TTab (Some \<lparr>pc_server = ''http://h.com:3128'', pc_proxy_key = ''http://u@h.com:3128'', pc_host = ''h.com'', pc_port = 3128, pc_username = Some ''u'', pc_password = Some ''b'', pc_scheme = ''http''\<rparr>) 0)"
    by (simp add: pool_defs proxy_defs)
  show ?thesis using tab_browser_proxy[OF r t] r t by simp
qed

lemma restart_step:
  "pool_step EvRestart s = Some s1 \<Longrightarrow>
     set (pl_stopped s) \<subseteq> set (pl_stopped s1) \<and> pl_tasks s1 = pl_tasks s \<and>
     (\<exists>k ks. pl_restart s = k # ks \<and> pl_restart s1 = ks \<and>
        (\<forall>k'. map_of (pl_browsers s1) k' = (if k' = k then None else map_of (pl_browsers s) k')) \<and>
        (\<forall>b. map_of (pl_browsers s) k = Some b \<longrightarrow> b \<in> set (pl_stopped s1)))"
  by (auto simp: restart_browser_def map_of_delete split: list.splits option.splits)

lemma restarts_frame:
  "pool_run (replicate n EvRestart) s0 = Some s2 \<Longrightarrow>
     set (pl_stopped s0) \<subseteq> set (pl_stopped s2) \<and> pl_tasks s2 = pl_tasks s0 \<and>
     (map_of (pl_browsers s0) k = None \<longrightarrow> map_of (pl_browsers s2) k = None)"
proof (induction n arbitrary: s0)
  case 0 then show ?case by simp
next
  case (Suc n)
  then obtain s1 where s1: "pool_step EvRestart s0 = Some s1" "pool_run (replicate n EvRestart) s1 = Some s2"
    by (auto split: option.splits)
  obtain ka where r: "set (pl_stopped s0) \<subseteq> set (pl_stopped s1)" "pl_tasks s1 = pl_tasks s0"
    "\<forall>k'. map_of (pl_browsers s1) k' = (if k' = ka then None else map_of (pl_browsers s0) k')"
    using restart_step[OF s1(1)] by blast
  have "map_of (pl_browsers s0) k = None \<longrightarrow> map_of (pl_browsers s1) k = None" using r(3) by simp
  then show ?case using r(1,2) Suc.IH[OF s1(2)] by auto
qed

lemma restarts_run:
  assumes "pl_restart s = ks"
  shows "\<exists>s'. pool_run (replicate (length ks) EvRestart) s = Some s' \<and> pl_tasks s' = pl_tasks s \<and>
           (\<forall>k \<in> set ks. map_of (pl_browsers s') k = None) \<and>
           (\<forall>k b. k \<in> set ks \<longrightarrow> map_of (pl_browsers s) k = Some b \<longrightarrow> b \<in> set (pl_stopped s'))"
  using assms
proof (induction ks arbitrary: s)
  case Nil then show ?case by simp
next
  case (Cons k ks)
  let ?s1 = "(restart_browser k s)\<lparr>pl_restart := ks\<rparr>"
  have st: "pool_step EvRestart s = Some ?s1" using Cons.prems by simp
  obtain s' where s': "pool_run (replicate (length ks) EvRestart) ?s1 = Some s'" "pl_tasks s' = pl_tasks ?s1"
    "\<forall>k \<in> set ks. map_of (pl_browsers s') k = None"
    "\<forall>k' b. k' \<in> set ks \<longrightarrow> map_of (pl_browsers ?s1) k' = Some b \<longrightarrow> b \<in> set (pl_stopped s')"
    using Cons.IH[of ?s1] by auto
  have f: "set (pl_stopped ?s1) \<subseteq> set (pl_stopped s')"
    "map_of (pl_browsers ?s1) k = None \<longrightarrow> map_of (pl_browsers s') k = None"
    using restarts_frame[OF s'(1), of k] by simp_all
  have r: "\<forall>k'. map_of (pl_browsers ?s1) k' = (if k' = k then None else map_of (pl_browsers s) k')"
    "\<forall>b. map_of (pl_browsers s) k = Some b \<longrightarrow> b \<in> set (pl_stopped ?s1)" "pl_tasks ?s1 = pl_tasks s"
    using restart_step[OF st] Cons.prems by auto
  have stopped: "b \<in> set (pl_stopped s')" if "k' \<in> set (k # ks)" "map_of (pl_browsers s) k' = Some b" for k' b
  proof (cases "k' = k")
    case True then show ?thesis using that r(2) f(1) by auto
  next
    case False then show ?thesis using that s'(4) r(1) by auto
  qed
  have gone: "map_of (pl_browsers s') k' = None" if "k' \<in> set (k # ks)" for k'
    using that s'(3) f(2) r(1) by auto
  show ?case using st s'(1,2) r(3) stopped gone by auto
qed

text \<open>
  C34: the health check stops a browser whose tab is in use. In any state
  where a \<open>/fetch\<close> holds a tab of the browser kept under key \<open>k\<close>, and that
  browser is older than \<open>browser_max_age\<close>, the check and the restarts it queues
  pop the browser and stop it, while the fetch still holds its tab (and its
  permit): the check looks at age and health only, never at the tabs in use.
\<close>

theorem restart_stops_busy_browser:
  assumes "map_of (pl_tasks s) t = Some (TTab p b)" and "map_of (pl_browsers s) k = Some b"
    and "map_of (pl_start_times s) k = Some t0" and "pl_max_age s < now - t0" and "pl_restart s = []"
  shows "\<exists>s'. pool_run (EvCheck now u # replicate (length (restart_keys now u s)) EvRestart) s = Some s' \<and>
           map_of (pl_tasks s') t = Some (TTab p b) \<and> b \<in> set (pl_stopped s') \<and> map_of (pl_browsers s') k = None"
proof -
  let ?s1 = "s\<lparr>pl_restart := restart_keys now u s\<rparr>"
  have k: "k \<in> set (restart_keys now u s)"
    using assms(2-4) by (force simp: restart_keys_def dest: map_of_SomeD)
  obtain s' where s': "pool_run (replicate (length (restart_keys now u s)) EvRestart) ?s1 = Some s'"
    "pl_tasks s' = pl_tasks s" "\<forall>k \<in> set (restart_keys now u s). map_of (pl_browsers s') k = None"
    "\<forall>k b. k \<in> set (restart_keys now u s) \<longrightarrow> map_of (pl_browsers s) k = Some b \<longrightarrow> b \<in> set (pl_stopped s')"
    using restarts_run[of ?s1 "restart_keys now u s"] by auto
  show ?thesis using s' k assms(1,2,5) by auto
qed

lemma restart_stops_busy_browser_witness:
  "map_of (pl_tasks (the (pool_run [EvFetch 1 None, EvCreate 1 0, EvTab 1] (pool_init 5 [] 3600)))) 1 = Some (TTab None 0) \<and>
   map_of (pl_browsers (the (pool_run [EvFetch 1 None, EvCreate 1 0, EvTab 1] (pool_init 5 [] 3600)))) None = Some 0 \<and>
   (\<exists>s'. pool_run (EvCheck 4000 [] # replicate (length (restart_keys 4000 []
         (the (pool_run [EvFetch 1 None, EvCreate 1 0, EvTab 1] (pool_init 5 [] 3600))))) EvRestart)
       (the (pool_run [EvFetch 1 None, EvCreate 1 0, EvTab 1] (pool_init 5 [] 3600))) = Some s' \<and>
     map_of (pl_tasks s') 1 = Some (TTab None 0) \<and> 0 \<in> set (pl_stopped s') \<and> map_of (pl_browsers s') None = None)"
proof -
  have h: "map_of (pl_tasks (the (pool_run [EvFetch 1 None, EvCreate 1 0, EvTab 1] (pool_init 5 [] 3600)))) 1 = Some (TTab None 0)"
    "map_of (pl_browsers (the (pool_run [EvFetch 1 None, EvCreate 1 0, EvTab 1] (pool_init 5 [] 3600)))) None = Some 0"
    "map_of (pl_start_times (the (pool_run [EvFetch 1 None, EvCreate 1 0, EvTab 1] (pool_init 5 [] 3600)))) None = Some 0"
    "pl_max_age (the (pool_run [EvFetch 1 None, EvCreate 1 0, EvTab 1] (pool_init 5 [] 3600))) < 4000 - 0"
    "pl_restart (the (pool_run [EvFetch 1 None, EvCreate 1 0, EvTab 1] (pool_init 5 [] 3600))) = []"
    by (simp_all add: pool_defs)
  show ?thesis using restart_stops_busy_browser[OF h, of "[]"] h(1,2) by simp
qed

end
