(* ===== verification/HttpApi.thy ===== *)
theory HttpApi
  imports Fetcher BrowserPool
begin

text \<open>
  The routes of \<open>src/proxy_service/main.py\<close> over the models of the cookie
  manager, the fetcher and the pool: \<open>GET\<close> and \<open>DELETE /cookies\<close>, \<open>POST /fetch\<close>,
  \<open>GET /status\<close> and \<open>GET /health/detail\<close>, with the pool's
  \<open>get_semaphore_status\<close> and \<open>get_stats\<close>. The lemmas show that the URL a cookie
  route rebuilds from the parsed domain has that domain again, and that the pool's
  maximum never changes.
\<close>

section \<open>Route results\<close>

text \<open>A route either answers or raises: \<open>HTTPException(status_code, detail)\<close>, or an
  exception the route does not catch (FastAPI answers it with status 500).\<close>

datatype api_err = HTTPException int string | Uncaught py_exc

text \<open>The proxy parameter of \<open>/fetch\<close> and \<open>/cookies\<close>: \<open>request_proxy\<close> parses it, and
  its \<open>ValueError\<close> becomes a 400. The detail's
  text after the prefix is the exception's message, which the model does not carry.\<close>

definition api_proxy :: "string option \<Rightarrow> api_err + proxy_config option" where
  "api_proxy r = map_sum (\<lambda>e. if e = ValueError then HTTPException 400 ''Invalid proxy URL: '' else Uncaught e) id
                   (request_proxy r)"

text \<open>The domain the route reports and the URL it hands to the cookie manager.\<close>

definition route_target :: "string \<Rightarrow> api_err + string \<times> string" where
  "route_target domain =
     (case get_domain domain of
        Inl e \<Rightarrow> Inl (Uncaught e)
      | Inr d \<Rightarrow>
          (let pd = (if d = [] then domain else d)
           in Inr (pd, if take 4 domain = ''http'' then domain else ''https://'' @ pd)))"

record cookies_response =
  cr_domain :: string
  cr_proxy :: "string option"
  cr_cookies :: "cookie list"

text \<open>\<open>GET /cookies\<close>.\<close>

definition api_get_cookies ::
  "cookie_manager option \<Rightarrow> string \<Rightarrow> string option \<Rightarrow> api_err + cookies_response" where
  "api_get_cookies cm domain pr =
     (case cm of
        None \<Rightarrow> Inl (HTTPException 503 ''Service not ready'')
      | Some st \<Rightarrow>
          (case api_proxy pr of
             Inl e \<Rightarrow> Inl e
           | Inr p \<Rightarrow>
               (case route_target domain of
                  Inl e \<Rightarrow> Inl e
                | Inr (pd, url) \<Rightarrow>
                    (case get_cookies url p st of
                       Inl e \<Rightarrow> Inl (Uncaught e)
                     | Inr cs \<Rightarrow> Inr \<lparr>cr_domain = pd, cr_proxy = map_option pc_proxy_key p, cr_cookies = cs\<rparr>))))"

text \<open>\<open>DELETE /cookies\<close> without a domain (or with an empty one).\<close>

definition clear_all_route :: "proxy_config option \<Rightarrow> cookie_manager \<Rightarrow> api_err + string \<times> cookie_manager" where
  "clear_all_route p st =
     (case clear_cookies None p st of
        Inl e \<Rightarrow> Inl (Uncaught e)
      | Inr st' \<Rightarrow>
          Inr (case p of
                 Some c \<Rightarrow> ''Cookies cleared for all domains (proxy: '' @ pc_proxy_key c @ '')''
               | None \<Rightarrow> ''All cookies cleared'', st'))"

text \<open>\<open>DELETE /cookies\<close>: the message and the cookie manager's new state.\<close>

definition api_clear_cookies ::
  "cookie_manager option \<Rightarrow> string option \<Rightarrow> string option \<Rightarrow> api_err + string \<times> cookie_manager" where
  "api_clear_cookies cm domain pr =
     (case cm of
        None \<Rightarrow> Inl (HTTPException 503 ''Service not ready'')
      | Some st \<Rightarrow>
          (case api_proxy pr of
             Inl e \<Rightarrow> Inl e
           | Inr p \<Rightarrow>
               (case domain of
                  Some d \<Rightarrow>
                    (if d \<noteq> [] then
                       (case route_target d of
                          Inl e \<Rightarrow> Inl e
                        | Inr (pd, url) \<Rightarrow>
                            (case clear_cookies (Some url) p st of
                               Inl e \<Rightarrow> Inl (Uncaught e)
                             | Inr st' \<Rightarrow>
                                 Inr (case p of
                                        Some c \<Rightarrow> ''Cookies cleared for '' @ pd @ '' (proxy: '' @ pc_proxy_key c @ '')''
                                      | None \<Rightarrow> ''Cookies cleared for '' @ pd @ '' (all proxies)'', st')))
                     else clear_all_route p st)
                | None \<Rightarrow> clear_all_route p st)))"

text \<open>\<open>POST /fetch\<close>: \<open>ready\<close> is \<open>fetcher\<close> being set, \<open>run\<close> is \<open>fetcher.fetch\<close> with
  the parsed proxy (the Cloudflare options are passed through unread).\<close>

definition api_fetch :: "bool \<Rightarrow> string option \<Rightarrow> (proxy_config option \<Rightarrow> fetch_result) \<Rightarrow> api_err + json" where
  "api_fetch ready pr run =
     (if \<not> ready then Inl (HTTPException 503 ''Service not ready'')
      else case api_proxy pr of Inl e \<Rightarrow> Inl e | Inr p \<Rightarrow> Inr (to_dict (run p)))"

section \<open>Pool status\<close>

text \<open>\<open>BrowserPool.get_semaphore_status\<close>: total, available, in use.\<close>

definition sem_status :: "pool \<Rightarrow> int \<times> int \<times> int" where
  "sem_status s = (pl_max s, pl_value s, pl_max s - pl_value s)"

text \<open>\<open>BrowserPool.get_stats\<close>: per browser its key, the number of its open tabs (read
  from the browser: \<open>tabs\<close>) and its age; times are whole seconds.\<close>

definition pool_stats :: "(nat \<Rightarrow> nat) \<Rightarrow> int \<Rightarrow> pool \<Rightarrow> (string option \<times> nat \<times> int) list" where
  "pool_stats tabs now s =
     map (\<lambda>(k, b). (k, tabs b, now - (case map_of (pl_start_times s) k of Some t \<Rightarrow> t | None \<Rightarrow> now)))
       (pl_browsers s)"

record health_report =
  hr_healthy :: bool
  hr_issues :: "string list"
  hr_semaphore :: "int \<times> int \<times> int"
  hr_browsers :: "(string option \<times> nat \<times> int) list"

text \<open>\<open>GET /health/detail\<close>; its \<open>config\<close> block copies constructor arguments and is left out.\<close>

definition health_detail ::
  "pool option \<Rightarrow> cookie_manager option \<Rightarrow> (nat \<Rightarrow> nat) \<Rightarrow> int \<Rightarrow> api_err + health_report" where
  "health_detail bp cm tabs now =
     (case (bp, cm) of
        (Some s, Some _) \<Rightarrow>
          (let ss = sem_status s; bs = pool_stats tabs now s; full = (fst (snd ss) = 0)
           in Inr \<lparr>hr_healthy = \<not> full,
                   hr_issues = (if full then [''All semaphore slots are in use''] else []) @
                               (if bs = [] then [''No browser instances''] else []),
                   hr_semaphore = ss, hr_browsers = bs\<rparr>)
      | _ \<Rightarrow> Inl (HTTPException 503 ''Service not ready''))"

record status_response =
  st_status :: string
  st_max_concurrent :: int
  st_headless :: bool
  st_browsers :: "(string option \<times> nat \<times> int) list"
  st_cookie_keys :: "cookie_key list"

text \<open>\<open>GET /status\<close>; \<open>headless\<close> is the pool's constructor argument.\<close>

definition api_status ::
  "pool option \<Rightarrow> cookie_manager option \<Rightarrow> bool \<Rightarrow> (nat \<Rightarrow> nat) \<Rightarrow> int \<Rightarrow> api_err + status_response" where
  "api_status bp cm headless tabs now =
     (case (bp, cm) of
        (Some s, Some st) \<Rightarrow>
          Inr \<lparr>st_status = (if pl_started s then ''running'' else ''stopped''), st_max_concurrent = pl_max s,
               st_headless = headless, st_browsers = pool_stats tabs now s, st_cookie_keys = list_keys st\<rparr>
      | _ \<Rightarrow> Inl (HTTPException 503 ''Service not ready''))"

definition http_url :: "string \<Rightarrow> string" where
  "http_url u = (if has_http_prefix u then u else ''https://'' @ u)"

section \<open>Lemmas\<close>

lemma split_acc_slash: "p = [] \<or> hd p = CHR ''/'' \<Longrightarrow> hd (split_acc CHR ''/'' [] p) = []"
  by (cases p) auto

lemma scheme_ok_https: "scheme_ok ''https''"
  by (simp add: scheme_ok_def scheme_char_def is_alpha_char_def py_lower_def lower_char_def)

lemma http_url_form: "\<exists>s x. scheme_ok s \<and> http_url u = s @ ''://'' @ x"
proof (cases "take 7 u = ''http://''")
  case True
  then have "u = ''http'' @ ''://'' @ drop 7 u" by (metis append.assoc append_Cons append_Nil append_take_drop_id)
  then show ?thesis using True scheme_ok_http by (metis has_http_prefix_def http_url_def)
next
  case False
  show ?thesis
  proof (cases "take 8 u = ''https://''")
    case True
    then have "u = ''https'' @ ''://'' @ drop 8 u" by (metis append.assoc append_Cons append_Nil append_take_drop_id)
    then show ?thesis using True scheme_ok_https by (metis has_http_prefix_def http_url_def)
  next
    case F2: False
    then show ?thesis using False scheme_ok_https by (auto simp: http_url_def has_http_prefix_def)
  qed
qed

lemma split_params_slash:
  assumes "p = CHR ''/'' # q" shows "hd (split_params p) = CHR ''/''"
proof -
  let ?l = "rev (takeWhile (\<lambda>c. c \<noteq> CHR ''/'') (rev p))"
  have "length (takeWhile (\<lambda>c. c \<noteq> CHR ''/'') (rev p)) < length (rev p)"
  proof -
    have "takeWhile (\<lambda>c. c \<noteq> CHR ''/'') (rev p) \<noteq> rev p" using assms by (simp add: takeWhile_eq_all_conv)
    then show ?thesis by (metis le_neq_implies_less length_takeWhile_le takeWhile_eq_take take_all_iff)
  qed
  then have "0 < length p - length ?l" by simp
  then have "take (length p - length ?l) p = CHR ''/'' # take (length p - length ?l - 1) q"
    using assms by (cases "length p - length ?l") auto
  then show ?thesis using assms by (simp add: split_params_def Let_def)
qed

lemma urlparse_path_slash:
  "urlparse (s @ ''://'' @ x) = Inr r \<Longrightarrow> scheme_ok s \<Longrightarrow>
     \<exists>r0. urlsplit (s @ ''://'' @ x) = Inr r0 \<and> sr_netloc r = sr_netloc r0 \<and> (sr_path r = [] \<or> hd (sr_path r) = CHR ''/'')"
proof -
  assume p: "urlparse (s @ ''://'' @ x) = Inr r" and s: "scheme_ok s"
  then obtain r0 where r0: "urlsplit (s @ ''://'' @ x) = Inr r0"
    and r: "r = (if sr_scheme r0 \<in> set uses_params \<and> CHR '';'' \<in> set (sr_path r0)
                 then r0\<lparr>sr_path := split_params (sr_path r0)\<rparr> else r0)"
    by (auto simp: urlparse_def split: sum.splits)
  have sh: "sr_path r0 = [] \<or> hd (sr_path r0) = CHR ''/''" using urlsplit_auth_Inr[OF s r0] by blast
  have "sr_path r = [] \<or> hd (sr_path r) = CHR ''/''"
  proof (cases "sr_path r0")
    case Nil then show ?thesis using r by simp
  next
    case (Cons c q) then show ?thesis using r sh split_params_slash[of "sr_path r0" q] by auto
  qed
  then show ?thesis using r0 r by auto
qed

lemma get_domain_netloc:
  assumes "get_domain u = Inr d"
  shows "\<exists>r. urlsplit (http_url u) = Inr r \<and> d = sr_netloc r"
proof -
  obtain s x where sx: "scheme_ok s" "http_url u = s @ ''://'' @ x" using http_url_form by blast
  obtain r where r: "urlparse (http_url u) = Inr r"
    and d: "d = (if sr_netloc r \<noteq> [] then sr_netloc r else hd (py_split CHR ''/'' (sr_path r)))"
    using assms by (auto simp: get_domain_def http_url_def split: sum.splits)
  obtain r0 where r0: "urlsplit (http_url u) = Inr r0" "sr_netloc r = sr_netloc r0"
      "sr_path r = [] \<or> hd (sr_path r) = CHR ''/''"
    using urlparse_path_slash[of s x r] r sx by auto
  show ?thesis using r0 d split_acc_slash[OF r0(3)] by (auto simp: py_split_def)
qed

lemma get_domain_chars:
  assumes "get_domain u = Inr d"
  shows "brackets_ok d \<and> (\<forall>c \<in> set d. c \<notin> set ''/?#'' \<and> nt c)"
proof -
  obtain r where r: "urlsplit (http_url u) = Inr r" "d = sr_netloc r" using get_domain_netloc[OF assms] by blast
  obtain s x where sx: "scheme_ok s" "http_url u = s @ ''://'' @ x" using http_url_form by blast
  have "d = takeWhile (\<lambda>c. c \<notin> set ''/?#'') (filter nt x)"
    using urlsplit_auth_Inr[OF sx(1)] r sx(2) by (simp add: split_netloc_def)
  then have "\<forall>c \<in> set d. c \<notin> set ''/?#'' \<and> nt c" by (auto dest: set_takeWhileD)
  then show ?thesis using urlsplit_brackets[OF r(1)] r(2) by simp
qed

lemma get_domain_https:
  assumes "brackets_ok d" "\<forall>c \<in> set d. c \<notin> set ''/?#'' \<and> nt c"
  shows "get_domain (''https://'' @ d) = Inr d"
proof -
  have f: "filter nt d = d" using assms(2) by (simp add: filter_id_conv)
  have n: "split_netloc d = (d, [])" using assms(2) by (intro split_netloc_all) blast
  have "urlsplit (''https'' @ ''://'' @ d) =
      Inr \<lparr>sr_scheme = ''https'', sr_netloc = d, sr_path = [], sr_query = [], sr_fragment = []\<rparr>"
    using urlsplit_auth[OF scheme_ok_https, of d] assms(1) f n by (simp add: py_partition_def)
  then have "urlparse (''https://'' @ d) =
      Inr \<lparr>sr_scheme = ''https'', sr_netloc = d, sr_path = [], sr_query = [], sr_fragment = []\<rparr>"
    by (simp add: urlparse_def)
  moreover have "has_http_prefix (''https://'' @ d)" by (simp add: has_http_prefix_def)
  ultimately show ?thesis by (simp add: get_domain_def py_split_def)
qed

lemma get_domain_idem: assumes "get_domain u = Inr d" shows "get_domain (''https://'' @ d) = Inr d"
  using get_domain_chars[OF assms] by (intro get_domain_https) simp_all

lemma route_target_key:
  assumes d: "get_domain domain = Inr d" and r: "route_target domain = Inr (pd, url)"
  shows "get_domain url = Inr d \<and> pd = (if d = [] then domain else d)"
proof -
  have pd: "pd = (if d = [] then domain else d)"
    and url: "url = (if take 4 domain = ''http'' then domain else ''https://'' @ pd)"
    using d r by (auto simp: route_target_def Let_def)
  have "get_domain url = Inr d"
  proof (cases "take 4 domain = ''http''")
    case True then show ?thesis using url d by simp
  next
    case False
    have np: "\<not> has_http_prefix domain"
    proof
      assume "has_http_prefix domain"
      then have "take 4 (take 7 domain) = take 4 ''http://'' \<or> take 4 (take 8 domain) = take 4 ''https://''"
        unfolding has_http_prefix_def by metis
      then show False using False by simp
    qed
    show ?thesis
    proof (cases "d = []")
      case True
      then show ?thesis using url pd False d np by (simp add: get_domain_def has_http_prefix_def)
    next
      case nd: False
      then show ?thesis using url pd False get_domain_idem[OF d] by simp
    qed
  qed
  then show ?thesis using pd by blast
qed

lemma map_of_clear_key:
  "clear_cookies (Some url) p st = Inr st' \<Longrightarrow> make_key url p = Inr k \<Longrightarrow> map_of (cm_cookies st') k = None"
proof (cases p)
  case None
  assume c: "clear_cookies (Some url) p st = Inr st'" and k: "make_key url p = Inr k"
  then obtain d where "get_domain url = Inr d" "k = (d, None)"
    "cm_cookies st' = filter (\<lambda>q. \<not> fst (fst q) = d) (cm_cookies st)"
    using None by (auto simp: clear_cookies_def make_key_def pop_keys_filter split: sum.splits)
  then show ?thesis using map_of_filter_fst[where P = "\<lambda>k. \<not> fst k = d" and d = "cm_cookies st"] by simp
qed (auto simp: clear_cookies_def split: sum.splits)

lemma sem_wake_max [simp]: "pl_max (sem_wake s) = pl_max s"
  by (simp add: sem_wake_def split: option.split)

lemma max_frame1 [simp]: "pl_max (sem_acquire t p s) = pl_max s"
  by (simp add: sem_acquire_def)
lemma max_frame2 [simp]: "pl_max (sem_release s) = pl_max s"
  by (simp add: sem_release_def)
lemma max_frame3 [simp]: "pl_max (restart_browser k s) = pl_max s"
  by (simp add: restart_browser_def split: option.split)
lemma max_frame4: "get_or_create p now s = (s1, r) \<Longrightarrow> pl_max s1 = pl_max s"
proof -
  have "pl_max (fst (get_or_create p now s)) = pl_max s"
    unfolding get_or_create_def Let_def fst_conv
    by (cases "proxy_key_of p \<in> dict_keys (pl_browsers s)") (simp_all del: args_frame)
  then show "get_or_create p now s = (s1, r) \<Longrightarrow> pl_max s1 = pl_max s" by simp
qed

lemma pool_step_max: "pool_step e s = Some s' \<Longrightarrow> pl_max s' = pl_max s"
proof (cases e)
  case (EvCreate t now)
  then show "pool_step e s = Some s' \<Longrightarrow> ?thesis"
    by (auto split: option.splits task_st.splits prod.splits dest: max_frame4)
qed (auto simp: Let_def split: option.splits task_st.splits if_splits list.splits sum.splits)

lemma reach_max: "pool_reach ok (pool_init m args age) s \<Longrightarrow> pl_max s = m"
  by (induction rule: pool_reach.induct) (auto simp: pool_init_def dest: pool_step_max)

section \<open>Properties\<close>

text \<open>
  C35: \<open>GET /cookies\<close> answers with the cookies stored under the domain it reports
  and the proxy key it reports, whenever the domain parameter has a host part:
  the URL it rebuilds from the parsed domain has that domain again.
\<close>

theorem cookies_route_reads_reported_key:
  assumes "get_domain domain = Inr d" and "d \<noteq> []" and "api_proxy pr = Inr p"
  shows "api_get_cookies (Some st) domain pr =
           Inr \<lparr>cr_domain = d, cr_proxy = map_option pc_proxy_key p,
                cr_cookies = (case map_of (cm_cookies st) (d, map_option pc_proxy_key p) of Some cs \<Rightarrow> cs | None \<Rightarrow> [])\<rparr>"
proof -
  obtain url where r: "route_target domain = Inr (d, url)"
    using assms(1,2) by (auto simp: route_target_def Let_def)
  have "get_domain url = Inr d" using route_target_key[OF assms(1) r] by blast
  then show ?thesis using r assms(3) by (simp add: api_get_cookies_def get_cookies_def make_key_def)
qed

lemma cookies_route_reads_reported_key_witness:
  "get_domain ''https://a.com/login'' = Inr ''a.com'' \<and> ''a.com'' \<noteq> [] \<and> api_proxy None = Inr None \<and>
   api_get_cookies (Some \<lparr>cm_cookies = [((''a.com'', None), [JStr ''sid''])]\<rparr>) ''https://a.com/login'' None =
     Inr \<lparr>cr_domain = ''a.com'', cr_proxy = None, cr_cookies = [JStr ''sid'']\<rparr>"
proof -
  have d: "get_domain ''https://a.com/login'' = Inr ''a.com''" by (simp add: cookie_defs)
  have p: "api_proxy None = Inr None" by (simp add: api_proxy_def request_proxy_def)
  show ?thesis using cookies_route_reads_reported_key[OF d _ p, of "\<lparr>cm_cookies = [((''a.com'', None), [JStr ''sid''])]\<rparr>"] d p by simp
qed

text \<open>
  C36: after \<open>DELETE /cookies\<close> for a domain (with or without a proxy) succeeds,
  \<open>GET /cookies\<close> with the same parameters answers with no cookies.
\<close>

theorem clear_then_get_empty:
  assumes "api_clear_cookies (Some st) (Some domain) pr = Inr (msg, st')" and "domain \<noteq> []"
  shows "\<exists>r. api_get_cookies (Some st') domain pr = Inr r \<and> cr_cookies r = []"
proof -
  obtain p pd url where p: "api_proxy pr = Inr p" and r: "route_target domain = Inr (pd, url)"
    and c: "clear_cookies (Some url) p st = Inr st'"
    using assms by (auto simp: api_clear_cookies_def split: sum.splits prod.splits)
  obtain d where d: "get_domain url = Inr d"
    using c by (cases p) (auto simp: clear_cookies_def make_key_def split: sum.splits)
  have k: "make_key url p = Inr (d, map_option pc_proxy_key p)" using d by (simp add: make_key_def)
  show ?thesis using map_of_clear_key[OF c k] p r k by (simp add: api_get_cookies_def get_cookies_def)
qed

lemma clear_then_get_empty_witness:
  "api_clear_cookies (Some \<lparr>cm_cookies = [((''a.com'', None), [JStr ''1'']), ((''b.com'', None), [JStr ''2''])]\<rparr>)
      (Some ''a.com'') None =
     Inr (''Cookies cleared for a.com (all proxies)'', \<lparr>cm_cookies = [((''b.com'', None), [JStr ''2''])]\<rparr>) \<and>
   ''a.com'' \<noteq> [] \<and>
   (\<exists>r. api_get_cookies (Some \<lparr>cm_cookies = [((''b.com'', None), [JStr ''2''])]\<rparr>) ''a.com'' None = Inr r \<and>
        cr_cookies r = [])"
proof -
  have c: "api_clear_cookies (Some \<lparr>cm_cookies = [((''a.com'', None), [JStr ''1'']), ((''b.com'', None), [JStr ''2''])]\<rparr>)
      (Some ''a.com'') None =
     Inr (''Cookies cleared for a.com (all proxies)'', \<lparr>cm_cookies = [((''b.com'', None), [JStr ''2''])]\<rparr>)"
    by (simp add: api_clear_cookies_def api_proxy_def request_proxy_def route_target_def cookie_defs pop_keys_def)
  show ?thesis using clear_then_get_empty[OF c] c by simp
qed



text \<open>
  C38: while no task is cancelled after taking the semaphore, \<open>/health/detail\<close>
  reports as in use exactly the fetches past \<open>acquire\<close> and the woken waiters, and
  reports unhealthy exactly when they number \<open>max_concurrent\<close>.
\<close>

theorem health_reports_in_use:
  assumes "pool_reach (\<lambda>e s. \<not> leaks e s) (pool_init m args age) s" and "0 \<le> m"
    and "health_detail (Some s) cm tabs now = Inr h"
  shows "hr_semaphore h = (m, m - int (holders s + woken s), int (holders s + woken s)) \<and>
         (hr_healthy h \<longleftrightarrow> int (holders s + woken s) < m)"
proof -
  have "sem_inv s \<and> permits s = m"
    using reach_sem_inv[OF assms(1)] pool_init_inv[OF assms(2)] by simp
  then have v: "0 \<le> pl_value s" "pl_value s = m - int (holders s + woken s)"
    by (auto simp: sem_inv_def permits_def)
  show ?thesis using assms(3) v reach_max[OF assms(1)]
    by (auto simp: health_detail_def sem_status_def Let_def split: option.splits)
qed

lemma health_reports_in_use_witness:
  "pool_reach (\<lambda>e s. \<not> leaks e s) (pool_init 1 [] 3600)
     (the (pool_run [EvFetch 1 None, EvFetch 2 None] (pool_init 1 [] 3600))) \<and> (0::int) \<le> 1 \<and>
   health_detail (Some (the (pool_run [EvFetch 1 None, EvFetch 2 None] (pool_init 1 [] 3600)))) (Some cm_init) (\<lambda>_. 0) 0 =
     Inr \<lparr>hr_healthy = False, hr_issues = [''All semaphore slots are in use'', ''No browser instances''],
          hr_semaphore = (1, 0, 1), hr_browsers = []\<rparr> \<and>
   hr_semaphore \<lparr>hr_healthy = False, hr_issues = [''All semaphore slots are in use'', ''No browser instances''],
          hr_semaphore = (1, 0, 1), hr_browsers = []\<rparr> =
     (1, 1 - int (holders (the (pool_run [EvFetch 1 None, EvFetch 2 None] (pool_init 1 [] 3600))) +
                  woken (the (pool_run [EvFetch 1 None, EvFetch 2 None] (pool_init 1 [] 3600)))),
      int (holders (the (pool_run [EvFetch 1 None, EvFetch 2 None] (pool_init 1 [] 3600))) +
           woken (the (pool_run [EvFetch 1 None, EvFetch 2 None] (pool_init 1 [] 3600)))))"
proof -
  have r: "pool_reach (\<lambda>e s. \<not> leaks e s) (pool_init 1 [] 3600)
     (the (pool_run [EvFetch 1 None, EvFetch 2 None] (pool_init 1 [] 3600)))"
    by (rule run_reach_init[where evs = "[EvFetch 1 None, EvFetch 2 None]"]) (simp_all add: pool_defs leaks_def)
  have h: "health_detail (Some (the (pool_run [EvFetch 1 None, EvFetch 2 None] (pool_init 1 [] 3600)))) (Some cm_init) (\<lambda>_. 0) 0 =
     Inr \<lparr>hr_healthy = False, hr_issues = [''All semaphore slots are in use'', ''No browser instances''],
          hr_semaphore = (1, 0, 1), hr_browsers = []\<rparr>"
    by (simp add: health_detail_def sem_status_def pool_stats_def pool_defs)
  show ?thesis using health_reports_in_use[OF r _ h] r h by simp
qed

end
