(* ===== verification/Example.thy ===== *)
theory Example
  imports ProxyConfig
begin

text \<open>
  \<open>src/examples/proxy_example.py\<close>: its own \<open>parse_proxy_url\<close> and the
  \<open>--proxy-server\<close> argument it starts the browser with. The rest of the script
  drives a browser and prints what it sees. The lemma compares the script's parsing
  with \<open>ProxyConfig.parse\<close>.
\<close>

text \<open>An f-string field holding \<open>str | None\<close>.\<close>

definition opt_str :: "string option \<Rightarrow> string" where
  "opt_str x = (case x of Some s \<Rightarrow> s | None \<Rightarrow> ''None'')"

text \<open>The dictionary \<open>parse_proxy_url\<close> returns.\<close>

record example_proxy =
  ep_host :: "string option"
  ep_port :: "int option"
  ep_username :: "string option"
  ep_password :: "string option"
  ep_server :: string

text \<open>\<open>parse_proxy_url\<close>: no validation; reading \<open>parsed.port\<close> may raise.\<close>

definition parse_proxy_url :: "string \<Rightarrow> py_exc + example_proxy" where
  "parse_proxy_url u =
     (case urlparse u of
        Inl e \<Rightarrow> Inl e
      | Inr r \<Rightarrow>
          (case url_port r of
             Inl e \<Rightarrow> Inl e
           | Inr port \<Rightarrow>
               Inr \<lparr>ep_host = url_hostname r, ep_port = port, ep_username = url_username r,
                    ep_password = url_password r,
                    ep_server = sr_scheme r @ ''://'' @ opt_str (url_hostname r) @ '':'' @
                                (case port of Some p \<Rightarrow> int_str p | None \<Rightarrow> ''None'')\<rparr>))"

text \<open>The browser argument \<open>main()\<close> passes to \<open>zd.start\<close>.\<close>

definition example_browser_arg :: "example_proxy \<Rightarrow> string" where
  "example_browser_arg e = ''--proxy-server='' @ ep_server e"

section \<open>Properties\<close>

text \<open>
  C26: the example script and \<open>ProxyConfig.parse\<close> agree on every proxy URL that
  \<open>parse\<close> accepts and that names its scheme. They give the same host, port, user
  name, password and server, and start the browser with the same \<open>--proxy-server\<close>
  argument.
\<close>

theorem example_parse_agrees:
  assumes "proxy_parse u = Inr c" and "urlparse u = Inr r" and "sr_scheme r \<noteq> []"
  shows "parse_proxy_url u = Inr \<lparr>ep_host = Some (pc_host c), ep_port = Some (pc_port c),
            ep_username = pc_username c, ep_password = pc_password c, ep_server = pc_server c\<rparr> \<and>
         example_browser_arg \<lparr>ep_host = Some (pc_host c), ep_port = Some (pc_port c),
            ep_username = pc_username c, ep_password = pc_password c, ep_server = pc_server c\<rparr> = to_browser_arg c"
proof -
  obtain r' h p where r': "urlparse u = Inr r'" "url_hostname r' = Some h" "h \<noteq> []" "url_port r' = Inr (Some p)"
    "p \<noteq> 0" and c: "c = (let scheme = (if sr_scheme r' = [] then ''http'' else sr_scheme r') in
       \<lparr>pc_server = server_str scheme h p,
        pc_proxy_key = (case url_username r' of
                          Some un \<Rightarrow> (if un \<noteq> [] then user_key_str scheme un h p else server_str scheme h p)
                        | None \<Rightarrow> server_str scheme h p),
        pc_host = h, pc_port = p, pc_username = url_username r', pc_password = url_password r',
        pc_scheme = scheme\<rparr>)"
    by (rule proxy_parse_Inr[OF assms(1)])
  have "r' = r" using r'(1) assms(2) by simp
  then show ?thesis using r' c assms(3)
    by (simp add: parse_proxy_url_def example_browser_arg_def to_browser_arg_def server_str_def opt_str_def Let_def)
qed

lemma example_parse_agrees_witness:
  "proxy_parse ''http://u:pw@h.com:3128'' =
     Inr \<lparr>pc_server = ''http://h.com:3128'', pc_proxy_key = ''http://u@h.com:3128'', pc_host = ''h.com'',
          pc_port = 3128, pc_username = Some ''u'', pc_password = Some ''pw'', pc_scheme = ''http''\<rparr> \<and>
   urlparse ''http://u:pw@h.com:3128'' =
     Inr \<lparr>sr_scheme = ''http'', sr_netloc = ''u:pw@h.com:3128'', sr_path = [], sr_query = [], sr_fragment = []\<rparr> \<and>
   parse_proxy_url ''http://u:pw@h.com:3128'' =
     Inr \<lparr>ep_host = Some ''h.com'', ep_port = Some 3128, ep_username = Some ''u'', ep_password = Some ''pw'',
          ep_server = ''http://h.com:3128''\<rparr>"
proof -
  have u: "urlparse ''http://u:pw@h.com:3128'' =
     Inr \<lparr>sr_scheme = ''http'', sr_netloc = ''u:pw@h.com:3128'', sr_path = [], sr_query = [], sr_fragment = []\<rparr>"
    by (simp add: url_defs Let_def)
  have p: "proxy_parse ''http://u:pw@h.com:3128'' =
     Inr \<lparr>pc_server = ''http://h.com:3128'', pc_proxy_key = ''http://u@h.com:3128'', pc_host = ''h.com'',
          pc_port = 3128, pc_username = Some ''u'', pc_password = Some ''pw'', pc_scheme = ''http''\<rparr>"
    by (simp add: proxy_defs)
  show ?thesis using example_parse_agrees[OF p u] p u by simp
qed

text \<open>
  Without a scheme the two differ: \<open>parse\<close> defaults to \<open>http\<close>, the script
  writes an empty scheme.
\<close>

theorem example_schemeless_server:
  "proxy_parse ''//h.com:3128'' \<noteq> Inl ValueError \<and>
   parse_proxy_url ''//h.com:3128'' =
     Inr \<lparr>ep_host = Some ''h.com'', ep_port = Some 3128, ep_username = None, ep_password = None,
          ep_server = ''://h.com:3128''\<rparr>"
  by (simp add: parse_proxy_url_def opt_str_def proxy_defs)

end
