(* ===== verification/Spec2Isabelle.thy ===== *)
theory Spec2Isabelle
  imports Reconcile HttpApi Example
begin

text \<open>
  \<^bold>\<open>A model of zendriver's DevTools connection core and of the proxy service\<close>

  The repository has two programs. \<open>src/zendriver/core/connection.py\<close> is a
  client that sends commands over one websocket and receives, on the same
  socket, the responses to those commands and unsolicited events.
  \<open>src/proxy_service/\<close> is an HTTP service that fetches pages through a pool of
  browsers, one per proxy, and keeps cookies per (domain, proxy). The theories,
  in import order:

  \<^item> \<open>Prelude\<close>: JSON values as \<open>json.loads\<close> returns them, Python's truthiness,
    \<open>str()\<close>/\<open>repr()\<close>, the exceptions the code raises, dictionaries as
    insertion-ordered association lists, \<open>collections.deque(maxlen=n)\<close>, and the
    shared lemmas on them (the \<open>pydict_simps\<close> collection, list splitting at a
    separator, characters against literals).
  \<^item> \<open>Transaction\<close>: \<open>ProtocolException\<close>, \<open>Transaction\<close> and
    \<open>EventTransaction\<close>.
  \<^item> \<open>State\<close>: the \<open>Connection\<close> and \<open>Listener\<close> objects as records, the
    transaction objects in an explicit store, the pending table \<open>mapper\<close> and its
    invariant \<open>mapper_inv\<close>.
  \<^item> \<open>Listener\<close>: one iteration of \<open>Listener.listener_loop\<close> on the outcome of one
    bounded read (\<open>listener_iter\<close>), the loop over a sequence of outcomes,
    \<open>_cleanup_old_event_transactions\<close>, and the event-bookkeeping invariant.
  \<^item> \<open>Connection\<close>: \<open>add_handler\<close>, \<open>remove_handlers\<close>, the socket half of
    \<open>aopen\<close>, \<open>aclose\<close>, the id assignment and write of \<open>send\<close>, \<open>_send_oneshot\<close>.
  \<^item> \<open>Domains\<close> and \<open>Reconcile\<close>: \<open>_register_handlers\<close>, the domain
    reconciliation that \<open>aopen\<close> and \<open>send\<close> run, and which itself sends
    \<open>Domain.enable\<close> through \<open>send(..., _is_update=True)\<close>: the mutually recursive
    \<open>reg_loop\<close>, \<open>register_handlers\<close>, \<open>aopen\<close>, \<open>send_update\<close> and \<open>send\<close>, with
    the browser's answers as a parameter (\<open>browser\<close>). Because this recursion
    need not end in general, the functions take fuel and return \<open>None\<close> when it
    runs out. \<open>Reconcile\<close> proves that fuel \<open>Suc n\<close> is enough whenever \<open>n\<close>
    bounds the domains still to enable (\<open>register_handlers_terminates\<close>); at the
    root, \<open>op_fuel c = Suc (length (c_handlers c))\<close> is therefore enough in every
    reachable state (\<open>reachable_operations_return\<close>).
  \<^item> \<open>UrlParse\<close>: the part of CPython 3.11's \<open>urllib.parse\<close> that the proxy
    service calls (\<open>urlsplit\<close>, \<open>urlparse\<close>, the \<open>hostname\<close>, \<open>port\<close>, \<open>username\<close>
    and \<open>password\<close> attributes, and the \<open>ipaddress\<close> check of a bracketed host),
    written from the library's source.
  \<^item> \<open>ProxyConfig\<close>: \<open>proxy_config.py\<close>, with \<open>parse\<close> as \<open>proxy_parse\<close>.
  \<^item> \<open>CookieManager\<close>: \<open>cookie_manager.py\<close>; every method is one atomic step,
    since the lock is held without an await inside.
  \<^item> \<open>BrowserPool\<close>: \<open>browser_pool.py\<close> with the \<open>/fetch\<close> path of \<open>main.py\<close> and
    \<open>Fetcher._do_fetch\<close> that drive it, and \<open>asyncio.Semaphore\<close> (CPython 3.11).
    The state holds every task between its awaits; \<open>pool_step\<close> applies one
    atomic segment of one task (\<open>pool_ev\<close>), and \<open>pool_reach\<close> collects the states
    that any interleaving reaches.
  \<^item> \<open>Fetcher\<close>: \<open>fetcher.py\<close>. \<open>_load_cookies\<close> and \<open>_save_cookies\<close> move cookies
    between the cookie manager and the tab. \<open>_do_fetch\<close> takes as input how far the
    pool and the page loader got (\<open>fetch_step\<close>). \<open>fetch\<close> takes the outcome under
    its overall timeout (\<open>fetch_end\<close>). Also \<open>FetchResult.to_dict\<close>.
  \<^item> \<open>HttpApi\<close>: the routes of \<open>main.py\<close> (\<open>/fetch\<close>, \<open>/status\<close>, \<open>GET\<close> and
    \<open>DELETE /cookies\<close>, \<open>/health/detail\<close>) over the cookie manager, the fetcher
    and the pool. It includes the pool's \<open>get_semaphore_status\<close> and \<open>get_stats\<close>.
    The global objects being unset is the 503 branch.
  \<^item> \<open>Example\<close>: \<open>parse_proxy_url\<close> of \<open>src/examples/proxy_example.py\<close> and the
    browser argument it builds, compared with \<open>ProxyConfig.parse\<close>.
  \<^item> this theory: how the connection's operations interleave (\<open>conn_op\<close>,
    \<open>exec_op\<close>, the inductive \<open>reachable\<close>), and the scenarios across components.

  What is proved (theorem names; \<open>PROJECT.json\<close> numbers them as claims).
  Reader loop: a response resolves exactly the command its id names, an error
  frame fails it, an unknown id changes nothing, the idle flag, event recording,
  the bound on event records, eviction of the oldest ids, processing in order
  (\<open>listener_loop_append\<close>).
  Connection: fresh ids, the errors of \<open>remove_handlers\<close> and of \<open>send\<close>,
  \<open>aclose\<close>. Reconciliation: it terminates with enough fuel, enables each used
  domain exactly once (\<open>register_handlers_enables_each_once\<close>), and keeps the
  enabled domains duplicate-free and within the used ones. Across components:
  every reachable connection satisfies the table invariant, \<open>aopen\<close> and
  \<open>send\<close> return in every reachable state, and send/response round trips.
  Proxy service: \<open>parse\<close> returns only well-formed configurations
  (\<open>proxy_parse_wf\<close>), whose server string parses back
  (\<open>proxy_server_roundtrip\<close>), and \<open>__eq__\<close> is equality of scheme, host, port
  and user name (\<open>proxy_eq_iff\<close>). Cookies saved for a URL and proxy read back for
  any equal proxy, \<open>http://x\<close>, \<open>https://x\<close> and \<open>x\<close> share a key, and clearing by
  domain removes exactly that domain. In the pool: permits are conserved
  (\<open>permits_conserved\<close>), a waiting \<open>/fetch\<close> eventually passes the semaphore
  (\<open>fetch_gets_permit\<close>, by induction on the waiters ahead of it), and every tab
  runs in a browser launched for an equal proxy (\<open>tab_browser_proxy\<close>).
  The status route reports exactly the permits in use
  (\<open>health_reports_in_use\<close>). A cookie route reads the key of the domain it
  reports (\<open>cookies_route_reads_reported_key\<close>), and clearing then reading
  answers nothing (\<open>clear_then_get_empty\<close>). Cookies a fetch saved are loaded
  into the tab of the next fetch through an equal proxy
  (\<open>fetch_cookies_roundtrip\<close>). A failed fetch leaves the store unchanged
  (\<open>fetch_failure_keeps_store\<close>). The example script parses every URL that
  \<open>parse\<close> accepts and that names its scheme as \<open>parse\<close> does
  (\<open>example_parse_agrees\<close>).

  Findings, each a theorem:
  \<^item> a result the generator cannot finish kills the reader loop;
  \<^item> registering a handler for a domain module skips every event class;
  \<^item> ids are reused after the table empties, so late duplicate responses
    resolve the wrong command or kill the loop;
  \<^item> a stale enabled domain makes \<open>send\<close> raise \<open>ValueError\<close>;
  \<^item> after the listener dies, reopening skips the re-enable;
  \<^item> an IPv6 proxy loses its brackets in \<open>server\<close> (\<open>ipv6_server_unparsable\<close>);
  \<^item> \<open>get_domain\<close> maps every non-lower-case-http(s) URL to \<open>"<scheme>:"\<close>
    (\<open>get_domain_other_scheme\<close>);
  \<^item> a \<open>/fetch\<close> cancelled inside \<open>acquire\<close> leaks its permit until the pool
    starves (\<open>cancel_leak_starves\<close>);
  \<^item> the health check stops browsers whose tabs are in use
    (\<open>restart_stops_busy_browser\<close>);
  \<^item> \<open>get_domain\<close>'s path fallback is always empty, so a cookie route given a
    domain without a host reports it but reads the empty domain
    (\<open>cookies_route_hostless_domain\<close>);
  \<^item> only a falsy \<open>expires\<close> comes back as no expiry, and the session flag is
    not saved (\<open>fetch_cookies_roundtrip\<close>);
  \<^item> the example script writes \<open>://host:port\<close> for a URL without a scheme
    (\<open>example_schemeless_server\<close>).

  Modelling choices. Python \<open>int\<close>s are \<open>int\<close>, strings are byte strings. JSON
  numbers are integers. Times are whole seconds, so \<open>str()\<close> of a float
  timeout is its digits and \<open>.0\<close>. Timing is abstracted: a \<open>wait_for\<close> is the
  outcome it produces. In the pool, the environment chooses which task runs and what each
  browser call returns. Cancellation of a \<open>/fetch\<close> is an event; its effect
  follows \<open>acquire\<close>'s \<open>except\<close> clauses. A browser that \<open>_restart_browser\<close> pops is counted as
  stopped at once, although its \<open>stop()\<close> runs in a task of its own. \<open>EvTab\<close>
  covers tab creation together with \<open>_setup_proxy_auth\<close>. A command's answer is
  the next frame the listener reads (\<open>send_await\<close>). Each connection operation
  runs to completion, nested enables included (\<open>exec_op\<close>), so interleavings
  are coarser than asyncio's. Cookie expiry times are whole seconds. Library code the programs call
  (\<open>urllib.parse\<close>, \<open>ipaddress\<close>, \<open>asyncio.Semaphore\<close>, the \<open>cdp\<close> command
  generators) is modelled from its source or the spec and marked
  \<open>spec_modelled\<close> in \<open>PROJECT.json\<close>.

  Not modelled: \<open>wait\<close>, \<open>_prepare_headless\<close>, \<open>_prepare_expert\<close> and
  \<open>update_target\<close> (CDP calls whose effect lies in the browser); the target
  accessors and the \<open>CantTouchThis\<close> metaclass (getters); \<open>__repr__\<close>. The page
  loader is outside \<open>src/\<close>; its result is an input of \<open>_do_fetch\<close>. Not modelled
  in \<open>main.py\<close>: \<open>lifespan\<close> (start-up and shut-down of the global objects), the
  pydantic request models (the framework validates them) and \<open>/health\<close> (a
  constant). Beyond \<open>parse_proxy_url\<close>, the example script drives a browser and
  prints what it sees. The \<open>cdp\<close> package is generated and outside \<open>src/\<close>. The NFKC check of
  \<open>urlsplit\<close> concerns non-ASCII hosts only.
\<close>

section \<open>Interleaved operations\<close>

text \<open>
  The operations that change a connection, each run to its next suspension point.
  \<open>OpSend\<close> is \<open>send\<close> up to and including its write (when \<open>aopen\<close> left no
  socket, \<open>send\<close> returns early at line 554); \<open>OpRecv\<close> is one iteration of the
  running listener; a loop that breaks or raises leaves its listener not running.
\<close>

datatype conn_op =
    OpConnect bool
  | OpSend cdp_command
  | OpOneshot cdp_command
  | OpRecv recv
  | OpAddHandler handler_target handler
  | OpRemoveHandlers "pyobj option" "handler option"
  | OpClose

text \<open>
  Fuel for the reconciliations an operation runs: one more than the number of
  handler entries, which bounds the domains that can still need enabling.
\<close>

definition op_fuel :: "conn \<Rightarrow> nat" where
  "op_fuel c = Suc (length (c_handlers c))"

fun exec_op :: "browser \<Rightarrow> (jobj \<Rightarrow> event option) \<Rightarrow> conn \<Rightarrow> conn_op \<Rightarrow> conn" where
  "exec_op b parse c (OpConnect ok) =
     (case aopen (op_fuel c) (b\<lparr>br_connects := ok\<rparr>) c of None \<Rightarrow> c | Some (c', _) \<Rightarrow> c')"
| "exec_op b parse c (OpSend cmd) =
     (case send (op_fuel c) b cmd c of None \<Rightarrow> c | Some (c', _) \<Rightarrow> c')"
| "exec_op b parse c (OpOneshot cmd) =
     (case send_oneshot_enqueue c cmd of
        (c', Inl e) \<Rightarrow> c'
      | (c', Inr oid) \<Rightarrow> send_write c' oid)"
| "exec_op b parse c (OpRecv r) =
     (case c_listener c of
        Some l \<Rightarrow>
          (if l_running l then
             (case listener_iter parse l c r of
                (l', c', LContinue) \<Rightarrow> c'\<lparr>c_listener := Some l'\<rparr>
              | (l', c', _) \<Rightarrow> c'\<lparr>c_listener := Some (l'\<lparr>l_running := False\<rparr>)\<rparr>)
           else c)
      | None \<Rightarrow> c)"
| "exec_op b parse c (OpAddHandler tgt h) =
     (case add_handler c tgt h of Inl e \<Rightarrow> c | Inr c' \<Rightarrow> c')"
| "exec_op b parse c (OpRemoveHandlers et h) =
     (case remove_handlers c et h of Inl e \<Rightarrow> c | Inr c' \<Rightarrow> c')"
| "exec_op b parse c OpClose = aclose c"

definition exec_ops :: "browser \<Rightarrow> (jobj \<Rightarrow> event option) \<Rightarrow> conn \<Rightarrow> conn_op list \<Rightarrow> conn" where
  "exec_ops b parse c ops = foldl (exec_op b parse) c ops"

inductive reachable :: "browser \<Rightarrow> (jobj \<Rightarrow> event option) \<Rightarrow> conn \<Rightarrow> bool" for b parse where
  init: "reachable b parse new_connection"
| step: "reachable b parse c \<Longrightarrow> reachable b parse (exec_op b parse c op)"

section \<open>Sample runs\<close>

definition cmd_a :: cdp_command where
  "cmd_a = \<lparr>cmd_request = [(''method'', JStr ''Page.navigate''), (''params'', JObj [])],
            cmd_decode = Returns\<rparr>"

definition cmd_b :: cdp_command where
  "cmd_b = \<lparr>cmd_request = [(''method'', JStr ''Runtime.evaluate''), (''params'', JObj [])],
            cmd_decode = Returns\<rparr>"

definition response_a :: jobj where
  "response_a = [(''id'', JInt 0), (''result'', JStr ''frame-a'')]"

definition event_frame :: jobj where
  "event_frame = [(''method'', JStr ''Network.requestWillBeSent''), (''params'', JObj [])]"

definition opened :: conn where
  "opened = exec_ops accepting sample_parse new_connection [OpConnect True]"

definition handler_a :: handler where "handler_a = Handler ''on_request'' True"

definition handler_b :: handler where "handler_b = Handler ''on_response'' False"

text \<open>Two handlers for two event types of the \<open>Network\<close> domain, then one command.\<close>

definition subscribe_ops :: "conn_op list" where
  "subscribe_ops =
     [OpConnect True, OpAddHandler (EventTarget ev_request) handler_a,
      OpAddHandler (EventTarget ev_response) handler_b, OpSend sample_cmd]"

definition frame_methods :: "conn \<Rightarrow> json option list" where
  "frame_methods c = map (\<lambda>f. map_of f ''method'') (c_sent c)"

section \<open>The table invariant in every reachable state\<close>

lemma exec_op_via_rel:
  assumes "mapper_inv c" "distinct (c_enabled_domains c)"
    and "\<And>c' x. r = Some (c', x) \<Longrightarrow> reg_rel c c'"
  shows "mapper_inv (case r of None \<Rightarrow> c | Some (c', _) \<Rightarrow> c') \<and>
         distinct (c_enabled_domains (case r of None \<Rightarrow> c | Some (c', _) \<Rightarrow> c'))"
  using assms reg_relD(4,5) by (cases r) auto

lemma exec_op_inv:
  assumes inv: "mapper_inv c" and d: "distinct (c_enabled_domains c)"
  shows "mapper_inv (exec_op b parse c op) \<and> distinct (c_enabled_domains (exec_op b parse c op))"
proof (cases op)
  case (OpConnect ok)
  have "reg_rel c c'" if "aopen (op_fuel c) (b\<lparr>br_connects := ok\<rparr>) c = Some (c', x)" for c' x
    using that by (rule reconcile_rel(3))
  from exec_op_via_rel [OF inv d this] OpConnect show ?thesis by (simp del: aopen.simps)
next
  case (OpSend cmd)
  have "reg_rel c c'" if "send (op_fuel c) b cmd c = Some (c', x)" for c' x
    using that by (rule send_rel)
  from exec_op_via_rel [OF inv d this] OpSend show ?thesis by simp
next
  case (OpOneshot cmd)
  obtain c' res where se: "send_oneshot_enqueue c cmd = (c', res)" by fastforce
  with inv have "mapper_inv c'" by (rule send_oneshot_mapper_inv)
  moreover have "c_enabled_domains c' = c_enabled_domains c"
    using se by (auto simp: send_oneshot_enqueue_def split: if_splits sum.splits)
  ultimately show ?thesis using OpOneshot se d by (auto split: sum.splits)
next
  case (OpRecv r)
  have "mapper_inv c' \<and> c_enabled_domains c' = c_enabled_domains c"
    if "listener_iter parse l c r = (l', c', ctl)" for l l' c' ctl
    using listener_iter_mapper_inv [OF inv that] listener_iter_frame [OF that] by simp
  with OpRecv inv d show ?thesis
    by (auto split: option.splits prod.splits loop_ctl.splits)
next
  case (OpAddHandler tgt h)
  have "c_enabled_domains c' = c_enabled_domains c" if "add_handler c tgt h = Inr c'" for c'
    using that by (auto simp: add_handler_def split: handler_target.splits sum.splits)
  with OpAddHandler inv d show ?thesis by (auto simp: add_handler_mapper_inv split: sum.splits)
next
  case (OpRemoveHandlers et h)
  have "c_enabled_domains c' = c_enabled_domains c" if "remove_handlers c et h = Inr c'" for c'
    using that by (auto simp: remove_handlers_def split: option.splits if_splits prod.splits)
  with OpRemoveHandlers inv d show ?thesis by (auto simp: remove_handlers_mapper_inv split: sum.splits)
next
  case OpClose
  have "distinct (c_enabled_domains (aclose c))" using d by (auto simp: aclose_def split: option.splits)
  with OpClose inv show ?thesis by (simp add: aclose_mapper_inv)
qed

lemma reachable_exec_ops:
  "reachable b parse c \<Longrightarrow> reachable b parse (exec_ops b parse c ops)"
proof (induction ops arbitrary: c rule: rev_induct)
  case Nil
  then show ?case by (simp add: exec_ops_def)
next
  case (snoc op ops)
  then have "reachable b parse (exec_ops b parse c ops)" by blast
  then show ?case by (simp add: exec_ops_def reachable.step)
qed

text \<open>
  C15: in every state any interleaving of the operations reaches, the pending
  table has distinct ids, all below the counter (so the next id is fresh), its
  entries point at distinct transaction objects, and each of those carries its own
  id.
\<close>

theorem reachable_conn_inv:
  assumes "reachable b parse c"
  shows "mapper_inv c \<and> distinct (c_enabled_domains c)"
  using assms
proof (induction rule: reachable.induct)
  case init
  show ?case using mapper_inv_new_connection by (simp add: new_connection_def)
next
  case (step c op)
  from step.IH show ?case by (intro exec_op_inv) simp_all
qed

theorem reachable_conn_inv_witness:
  "reachable accepting sample_parse
     (exec_ops accepting sample_parse new_connection [OpConnect True, OpSend cmd_a, OpSend cmd_b]) \<and>
   mapper_inv (exec_ops accepting sample_parse new_connection [OpConnect True, OpSend cmd_a, OpSend cmd_b])"
proof -
  have r: "reachable accepting sample_parse
      (exec_ops accepting sample_parse new_connection [OpConnect True, OpSend cmd_a, OpSend cmd_b])"
    using reachable.init by (rule reachable_exec_ops)
  with reachable_conn_inv [OF r] show ?thesis by simp
qed

section \<open>Round trip through the connection\<close>

lemma send_write_frame:
  assumes "send_enqueue c cmd = (c1, Inr oid)"
  shows "\<exists>t i. new_transaction cmd = Inr t \<and> c_heap c1 ! oid = t\<lparr>tx_id := Some i\<rparr> \<and>
     oid < length (c_heap c1) \<and>
     map_of (c_mapper c1) i = Some oid \<and>
     last (c_sent (send_write c1 oid)) = tx_message (t\<lparr>tx_id := Some i\<rparr>) \<and>
     c_mapper (send_write c1 oid) = c_mapper c1 \<and> c_heap (send_write c1 oid) = c_heap c1 \<and>
     c_websocket (send_write c1 oid) = c_websocket c"
  using send_enqueue_entry [OF assms]
  by (auto simp: send_write_def nth_append update_conv')

lemma sent_id:
  "map_of (tx_message t) ''id'' = Some (JInt i) \<Longrightarrow> tx_id t = Some i"
  by (auto simp: tx_message_def split: option.splits)

lemma send_round_trip_core:
  assumes se: "send_enqueue c cmd = (c1, Inr oid)" and ws: "c_websocket c"
    and sent: "map_of (last (c_sent (send_write c1 oid))) ''id'' = Some (JInt i)"
    and dec: "cmd_decode cmd r = Returns v"
    and it: "listener_iter parse l (send_write c1 oid) (RFrame [(''id'', JInt i), (''result'', r)]) =
               (l', c3, ctl)"
  shows "ctl = LContinue \<and> send_result c3 oid = Some (Inr (Decoded v))"
proof -
  obtain t i0 where t: "new_transaction cmd = Inr t" and h: "c_heap c1 ! oid = t\<lparr>tx_id := Some i0\<rparr>"
    and m: "map_of (c_mapper c1) i0 = Some oid"
    and last: "last (c_sent (send_write c1 oid)) = tx_message (t\<lparr>tx_id := Some i0\<rparr>)"
    and same: "c_mapper (send_write c1 oid) = c_mapper c1" "c_heap (send_write c1 oid) = c_heap c1"
      "c_websocket (send_write c1 oid) = c_websocket c"
    and len: "oid < length (c_heap c1)"
    using send_write_frame [OF se] by blast
  from sent last have "i = i0" by (auto dest: sent_id)
  moreover have "tx_state t = Pending" "tx_kind t = CommandTx (cmd_decode cmd)"
    using t by (simp_all add: new_transaction_pending)
  ultimately show ?thesis
    using it ws h m same dec len
    by (auto simp: listener_iter_def handle_response_def tx_call_def fut_set_result_def
        send_result_def nth_list_update)
qed

text \<open>
  C16: round trip. When \<open>send\<close> has registered and written a command, a frame
  \<open>{"id": i, "result": r}\<close> carrying the id it wrote resolves that very
  \<open>send\<close> with the value the command's decoder makes of \<open>r\<close>, and the loop goes
  on.
\<close>

theorem send_round_trip_result:
  assumes se: "send_enqueue c cmd = (c1, Inr oid)" and ws: "c_websocket c"
    and sent: "map_of (last (c_sent (send_write c1 oid))) ''id'' = Some (JInt i)"
    and dec: "cmd_decode cmd r = Returns v"
    and it: "listener_iter parse l (send_write c1 oid) (RFrame [(''id'', JInt i), (''result'', r)]) =
               (l', c3, ctl)"
  shows "ctl = LContinue \<and> send_result c3 oid = Some (Inr (Decoded v))"
  by (rule send_round_trip_core [OF se ws sent dec it])

theorem send_round_trip_result_witness:
  "send_result (fst (snd (listener_iter sample_parse new_listener
      (send_write (fst (send_enqueue opened sample_cmd)) 0)
      (RFrame [(''id'', JInt 0), (''result'', JObj [(''y'', JInt 2)])])))) 0 =
   Some (Inr (Decoded (JObj [(''y'', JInt 2)])))"
proof -
  have se: "send_enqueue opened sample_cmd = (fst (send_enqueue opened sample_cmd), Inr 0)"
    by (simp add: opened_def exec_ops_def aopen_connect_def new_connection_def send_enqueue_def
        ensure_listener_def sample_cmd_def new_transaction_def)
  have ws: "c_websocket opened"
    by (simp add: opened_def exec_ops_def aopen_connect_def new_connection_def)
  have sent: "map_of (last (c_sent (send_write (fst (send_enqueue opened sample_cmd)) 0))) ''id'' = Some (JInt 0)"
    by (simp add: opened_def exec_ops_def aopen_connect_def new_connection_def send_enqueue_def
        ensure_listener_def sample_cmd_def new_transaction_def send_write_def tx_message_def)
  have dec: "cmd_decode sample_cmd (JObj [(''y'', JInt 2)]) = Returns (JObj [(''y'', JInt 2)])"
    by (simp add: sample_cmd_def)
  obtain l' c3 ctl where it: "listener_iter sample_parse new_listener
      (send_write (fst (send_enqueue opened sample_cmd)) 0)
      (RFrame [(''id'', JInt 0), (''result'', JObj [(''y'', JInt 2)])]) = (l', c3, ctl)"
    by (metis prod.exhaust)
  from send_round_trip_result [OF se ws sent dec it] it show ?thesis by simp
qed

text \<open>
  The error half of the round trip. A frame
  \<open>{"id": i, "error": {"code": k, "message": s}}\<close> for the id \<open>send\<close> wrote makes
  that \<open>send\<close> raise a \<open>ProtocolException\<close> with code \<open>k\<close> and message \<open>s\<close>
  followed by the command's method and parameters.
\<close>

theorem send_round_trip_error:
  assumes se: "send_enqueue c cmd = (c1, Inr oid)" and ws: "c_websocket c"
    and req: "cmd_request cmd = [(''method'', JStr m), (''params'', p)]"
    and sent: "map_of (last (c_sent (send_write c1 oid))) ''id'' = Some (JInt i)"
    and it: "listener_iter parse l (send_write c1 oid)
               (RFrame [(''id'', JInt i), (''error'', JObj [(''code'', JInt k), (''message'', JStr s)])]) =
               (l', c3, ctl)"
  shows "ctl = LContinue \<and>
         send_result c3 oid =
           Some (Inl (ProtocolException
             (Some (JStr (s @ [CHR 0x0A] @ ''command:'' @ m @ [CHR 0x0A] @ ''params:'' @ py_str p)))
             (Some (JInt k))))"
proof -
  obtain t i0 where t: "new_transaction cmd = Inr t" and h: "c_heap c1 ! oid = t\<lparr>tx_id := Some i0\<rparr>"
    and m: "map_of (c_mapper c1) i0 = Some oid"
    and last: "last (c_sent (send_write c1 oid)) = tx_message (t\<lparr>tx_id := Some i0\<rparr>)"
    and same: "c_mapper (send_write c1 oid) = c_mapper c1" "c_heap (send_write c1 oid) = c_heap c1"
      "c_websocket (send_write c1 oid) = c_websocket c"
    and len: "oid < length (c_heap c1)"
    using send_write_frame [OF se] by blast
  from sent last have "i = i0" by (auto dest: sent_id)
  moreover have "tx_state t = Pending" "tx_method t = JStr m" "tx_params t = p"
    using t req by (auto simp: new_transaction_def)
  ultimately show ?thesis
    using it ws h m same len
    by (auto simp: listener_iter_def handle_response_def tx_call_def fut_set_exception_def
        send_result_def augment_message_def py_get_def nth_list_update)
qed

theorem send_round_trip_error_witness:
  "send_result (fst (snd (listener_iter sample_parse new_listener
      (send_write (fst (send_enqueue opened sample_cmd)) 0)
      (RFrame [(''id'', JInt 0), (''error'', JObj [(''code'', JInt 5), (''message'', JStr ''boom'')])])))) 0 =
   Some (Inl (ProtocolException
      (Some (JStr (''boom'' @ [CHR 0x0A] @ ''command:Foo.bar'' @ [CHR 0x0A] @ ''params:{'x': 1}'')))
      (Some (JInt 5))))"
proof -
  have se: "send_enqueue opened sample_cmd = (fst (send_enqueue opened sample_cmd), Inr 0)"
    by (simp add: opened_def exec_ops_def aopen_connect_def new_connection_def send_enqueue_def
        ensure_listener_def sample_cmd_def new_transaction_def)
  have ws: "c_websocket opened"
    by (simp add: opened_def exec_ops_def aopen_connect_def new_connection_def)
  have req: "cmd_request sample_cmd = [(''method'', JStr ''Foo.bar''), (''params'', JObj [(''x'', JInt 1)])]"
    by (simp add: sample_cmd_def)
  have sent: "map_of (last (c_sent (send_write (fst (send_enqueue opened sample_cmd)) 0))) ''id'' = Some (JInt 0)"
    by (simp add: opened_def exec_ops_def aopen_connect_def new_connection_def send_enqueue_def
        ensure_listener_def sample_cmd_def new_transaction_def send_write_def tx_message_def)
  have repr: "py_str (JObj [(''x'', JInt 1)]) = ''{'x': 1}''" by code_simp
  obtain l' c3 ctl where it: "listener_iter sample_parse new_listener
      (send_write (fst (send_enqueue opened sample_cmd)) 0)
      (RFrame [(''id'', JInt 0), (''error'', JObj [(''code'', JInt 5), (''message'', JStr ''boom'')])]) =
      (l', c3, ctl)"
    by (metis prod.exhaust)
  from send_round_trip_error [OF se ws req sent it] it repr show ?thesis by simp
qed

section \<open>Findings: correlation ids are reused\<close>

text \<open>
  C17: the counter restarts at 0 whenever the pending table is empty
  (\<open>send\<close>, line 568), whatever was sent before. Once every earlier command is
  answered, the next command is written with id 0, the id the first command of the
  connection had. A frame with id 0 (a late duplicate of any earlier answer with
  that id) then resolves the new command with its result.
\<close>

theorem late_duplicate_resolves_other_command:
  assumes m: "c_mapper c = []" and se: "send_enqueue c cmd = (c1, Inr oid)" and ws: "c_websocket c"
    and dec: "cmd_decode cmd r = Returns v"
    and it: "listener_iter parse l (send_write c1 oid) (RFrame [(''id'', JInt 0), (''result'', r)]) =
               (l', c3, ctl)"
  shows "map_of (last (c_sent (send_write c1 oid))) ''id'' = Some (JInt 0) \<and>
         ctl = LContinue \<and> send_result c3 oid = Some (Inr (Decoded v))"
proof -
  obtain t where "c_heap c1 = c_heap c @ [t\<lparr>tx_id := Some 0\<rparr>]" "oid = length (c_heap c)"
    using send_enqueue_entry [OF se] m by auto
  then have sent: "map_of (last (c_sent (send_write c1 oid))) ''id'' = Some (JInt 0)"
    by (simp add: send_write_def tx_message_def)
  show ?thesis using send_round_trip_core [OF se ws sent dec it] sent by simp
qed

lemma late_duplicate_resolves_other_command_witness:
  "c_mapper opened = [] \<and> c_websocket opened \<and>
   send_result (fst (snd (listener_iter sample_parse new_listener
      (send_write (fst (send_enqueue opened sample_cmd)) 0)
      (RFrame [(''id'', JInt 0), (''result'', JStr ''frame-a'')])))) 0 =
   Some (Inr (Decoded (JStr ''frame-a'')))"
proof -
  have m: "c_mapper opened = []" and ws: "c_websocket opened"
    by (simp_all add: opened_def exec_ops_def aopen_connect_def new_connection_def)
  have se: "send_enqueue opened sample_cmd = (fst (send_enqueue opened sample_cmd), Inr 0)"
    by (simp add: opened_def exec_ops_def aopen_connect_def new_connection_def send_enqueue_def
        ensure_listener_def sample_cmd_def new_transaction_def)
  have dec: "cmd_decode sample_cmd (JStr ''frame-a'') = Returns (JStr ''frame-a'')"
    by (simp add: sample_cmd_def)
  obtain l' c3 ctl where it: "listener_iter sample_parse new_listener
      (send_write (fst (send_enqueue opened sample_cmd)) 0)
      (RFrame [(''id'', JInt 0), (''result'', JStr ''frame-a'')]) = (l', c3, ctl)"
    by (metis prod.exhaust)
  from late_duplicate_resolves_other_command [OF m se ws dec it] it m ws show ?thesis by simp
qed

text \<open>
  The event branch restarts the counter the same way (line 806), so an event
  arriving on an empty table is recorded under id 0; a late duplicate of the
  answer to command 0 then pops the event record and calls it, and the
  \<open>AttributeError\<close> this raises ends the reader loop.
\<close>

theorem late_duplicate_on_event_record_kills_loop:
  "(case c_listener (exec_ops accepting sample_parse new_connection
        [OpConnect True, OpSend cmd_a, OpRecv (RFrame response_a), OpRecv (RFrame event_frame)]) of
      Some l \<Rightarrow>
        snd (snd (listener_iter sample_parse l
          (exec_ops accepting sample_parse new_connection
             [OpConnect True, OpSend cmd_a, OpRecv (RFrame response_a), OpRecv (RFrame event_frame)])
          (RFrame response_a))) = LRaise AttributeError
    | None \<Rightarrow> False) \<and>
   (case c_listener (exec_ops accepting sample_parse new_connection
        [OpConnect True, OpSend cmd_a, OpRecv (RFrame response_a), OpRecv (RFrame event_frame),
         OpRecv (RFrame response_a)]) of
      Some l \<Rightarrow> \<not> l_running l
    | None \<Rightarrow> False)"
  by (simp add: exec_ops_def aopen_connect_def new_connection_def send_enqueue_def ensure_listener_def
      new_listener_def new_transaction_def cmd_a_def send_write_def tx_message_def response_a_def
      listener_iter_def handle_response_def tx_call_def fut_set_result_def send_result_def
      op_fuel_def send_plain aopen_plain event_frame_def sample_parse_def record_event_def cleanup_old_event_transactions_def dispatch_event_def
      MAX_EVENT_TRANSACTIONS_def CLEANUP_THRESHOLD_def del: aopen.simps)

section \<open>Domain subscription across operations\<close>

lemmas run_defs = exec_ops_def op_fuel_def send_def aopen_connect_def new_connection_def ensure_listener_def
  new_listener_def add_handler_def dd_append_def dd_get_def remove_handlers_def ev_request_def ev_response_def
  is_class_def always_enabled_def enable_cmd_def send_enqueue_def new_transaction_def send_write_def
  tx_message_def send_await_def deliver_def answer_frame_def accepting_def listener_iter_def
  handle_response_def tx_call_def fut_set_result_def send_result_def sample_cmd_def handler_a_def
  handler_b_def subscribe_ops_def aclose_def frame_methods_def

text \<open>
  C18: every \<open>aopen\<close> and \<open>send\<close> returns in every reachable state: the fuel
  \<open>op_fuel\<close> the interleaving gives them is enough, so no operation of a run is
  cut short.
\<close>

theorem reachable_operations_return:
  assumes "reachable b parse c"
  shows "aopen (op_fuel c) b' c \<noteq> None \<and> send (op_fuel c) b cmd c \<noteq> None"
proof -
  have d: "distinct (c_enabled_domains c)" using reachable_conn_inv [OF assms] by simp
  have n: "card (pending_domains c) < op_fuel c" using card_pending_le [of c] by (simp add: op_fuel_def)
  show ?thesis using reconcile_terminates(3) [OF n d] send_terminates [OF d n] by simp
qed

theorem reachable_operations_return_witness:
  "reachable accepting sample_parse (exec_ops accepting sample_parse new_connection subscribe_ops) \<and>
   send (op_fuel (exec_ops accepting sample_parse new_connection subscribe_ops)) accepting sample_cmd
     (exec_ops accepting sample_parse new_connection subscribe_ops) \<noteq> None"
proof -
  have r: "reachable accepting sample_parse (exec_ops accepting sample_parse new_connection subscribe_ops)"
    using reachable.init by (rule reachable_exec_ops)
  with reachable_operations_return [OF r] show ?thesis by simp
qed

text \<open>
  The spec's reconciliation scenario. Two handlers for two event types of one
  domain make the next \<open>send\<close> write exactly one \<open>Network.enable\<close> before the
  command; removing one of them keeps the domain enabled and writes no enable;
  removing both clears it at the next \<open>send\<close>.
\<close>

theorem subscription_scenario:
  "c_enabled_domains (exec_ops accepting sample_parse new_connection subscribe_ops) = [''Network''] \<and>
   frame_methods (exec_ops accepting sample_parse new_connection subscribe_ops) =
     [Some (JStr ''Network.enable''), Some (JStr ''Foo.bar'')] \<and>
   c_enabled_domains (exec_ops accepting sample_parse new_connection
     (subscribe_ops @ [OpRemoveHandlers (Some ev_request) (Some handler_a), OpSend sample_cmd])) = [''Network''] \<and>
   frame_methods (exec_ops accepting sample_parse new_connection
     (subscribe_ops @ [OpRemoveHandlers (Some ev_request) (Some handler_a), OpSend sample_cmd])) =
     [Some (JStr ''Network.enable''), Some (JStr ''Foo.bar''), Some (JStr ''Foo.bar'')] \<and>
   c_enabled_domains (exec_ops accepting sample_parse new_connection
     (subscribe_ops @ [OpRemoveHandlers (Some ev_request) (Some handler_a), OpSend sample_cmd,
                       OpRemoveHandlers (Some ev_response) (Some handler_b), OpSend sample_cmd])) = []"
  by (simp add: run_defs)

text \<open>
  Reopening resumes delivery. Closing a connection whose listener runs and
  opening it again writes the \<open>enable\<close> of every domain a handler still needs.
\<close>

theorem reopen_resumes_delivery:
  "c_enabled_domains (exec_ops accepting sample_parse new_connection (subscribe_ops @ [OpClose, OpConnect True])) =
     [''Network''] \<and>
   frame_methods (exec_ops accepting sample_parse new_connection (subscribe_ops @ [OpClose, OpConnect True])) =
     [Some (JStr ''Network.enable''), Some (JStr ''Foo.bar''), Some (JStr ''Network.enable'')]"
  by (simp add: run_defs)

text \<open>
  C21: when the listener has already ended (the socket closed under it, say),
  \<open>aclose\<close> keeps the enabled domains. Reopening then reconciles against that stale
  list, and if every domain the handlers use is still listed, the reopen writes no
  frame at all on the new socket, for any handlers and any fuel: the handlers
  stop receiving events.
\<close>

theorem reopen_after_dead_listener_skips_enable:
  assumes "c_websocket c" and "c_listener c = Some l" "\<not> l_running l"
    and "\<forall>et \<in> set (map fst (c_handlers c)). is_class et \<longrightarrow> obj_module et \<in> set (c_enabled_domains c)"
    and "br_connects b"
  shows "c_enabled_domains (aclose c) = c_enabled_domains c \<and>
         (\<exists>c' e. aopen n b (aclose c) = Some (c', e) \<and> c_sent c' = c_sent c \<and> c_websocket c')"
proof -
  have ac: "aclose c = c\<lparr>c_websocket := False\<rparr>" using assms(1-3) by (simp add: aclose_def)
  let ?c1 = "c\<lparr>c_websocket := True, c_listener := Some new_listener\<rparr>"
  have op: "aopen_connect (aclose c) (br_connects b) = (?c1, None)"
    using ac assms(5) by (simp add: aopen_connect_def)
  obtain c2 tmp' where r: "reg_loop n b (map fst (c_handlers c)) (c_enabled_domains c) ?c1 = Some (c2, tmp')"
    "c_sent c2 = c_sent c" "c_websocket c2"
    using reg_loop_all_enabled[of "map fst (c_handlers c)" ?c1 n b "c_enabled_domains c"] assms(4) by auto
  obtain c3 e where ru: "remove_unused tmp' c2 = (c3, e)" by fastforce
  have "c_sent c3 = c_sent c2" "c_websocket c3 = c_websocket c2" using remove_unused_fields[OF ru] by simp_all
  then show ?thesis using op r ru ac by (simp del: reg_loop.simps)
qed

lemma reopen_after_dead_listener_skips_enable_witness:
  "c_enabled_domains (aclose (stale_sample\<lparr>c_listener := Some (new_listener\<lparr>l_running := False\<rparr>),
       c_enabled_domains := [''Network'']\<rparr>)) = [''Network''] \<and>
   (\<exists>c' e. aopen 0 accepting (aclose (stale_sample\<lparr>c_listener := Some (new_listener\<lparr>l_running := False\<rparr>),
       c_enabled_domains := [''Network'']\<rparr>)) = Some (c', e) \<and> c_sent c' = [] \<and> c_websocket c')"
proof -
  have h: "c_websocket (stale_sample\<lparr>c_listener := Some (new_listener\<lparr>l_running := False\<rparr>), c_enabled_domains := [''Network'']\<rparr>)"
    "c_listener (stale_sample\<lparr>c_listener := Some (new_listener\<lparr>l_running := False\<rparr>), c_enabled_domains := [''Network'']\<rparr>) =
       Some (new_listener\<lparr>l_running := False\<rparr>)"
    "\<not> l_running (new_listener\<lparr>l_running := False\<rparr>)"
    "\<forall>et \<in> set (map fst (c_handlers (stale_sample\<lparr>c_listener := Some (new_listener\<lparr>l_running := False\<rparr>),
       c_enabled_domains := [''Network'']\<rparr>))). is_class et \<longrightarrow>
       obj_module et \<in> set (c_enabled_domains (stale_sample\<lparr>c_listener := Some (new_listener\<lparr>l_running := False\<rparr>),
         c_enabled_domains := [''Network'']\<rparr>))"
    "br_connects accepting"
    by (simp_all add: stale_sample_def new_connection_def ev_request_def accepting_def)
  have "c_sent (stale_sample\<lparr>c_listener := Some (new_listener\<lparr>l_running := False\<rparr>), c_enabled_domains := [''Network'']\<rparr>) = []"
    by (simp add: stale_sample_def new_connection_def)
  then show ?thesis using reopen_after_dead_listener_skips_enable[OF h, of 0] by simp
qed

end
